theory Spec2Isabelle
  imports Complex_Main "HOL-Library.Sublist"
begin

section \<open>Resumable paginated ingestion (fetch\_coin\_infos.py)\<close>

subsection \<open>Constants and the outside world\<close>

definition PER_PAGE :: nat where
  "PER_PAGE = 250"

definition MAX_RETRIES_PER_PAGE :: nat where
  "MAX_RETRIES_PER_PAGE = 3"

text \<open>
  What one \<^verbatim>\<open>session.get\<close> followed by the checks of \<^verbatim>\<open>fetch_page\<close> can
  see: status 429; an exception (raised by the transport, by \<^verbatim>\<open>raise_for_status\<close> or
  by \<^verbatim>\<open>resp.json()\<close>); a decoded payload that is not a list; a decoded list.
\<close>

datatype 'c response = TooManyRequests | RequestFailed | NotAList | DataList "'c list"

text \<open>
  A write with \<^verbatim>\<open>open(path, "w")\<close> and \<^verbatim>\<open>json.dump\<close> inside
  \<^verbatim>\<open>try\<close>: it succeeds, or \<^verbatim>\<open>open\<close> raises (the file is untouched), or the
  dump raises after the file was truncated (the file is left undecodable).
\<close>

datatype write_outcome = Written | OpenFails | DumpFails

text \<open>The value under the key \<^verbatim>\<open>last_page\<close> of the progress artifact
  (the artifact's schema makes it an integer or null).\<close>

datatype last_page_entry = KeyMissing | JsonNull | JsonInt int

datatype state_file = NoStateFile | BadStateFile | StateNotDict | StateDict last_page_entry

text \<open>A page artifact \<^verbatim>\<open>coin_pages/page_N.json\<close> as a later reader decodes it.\<close>

datatype 'c coins_entry = CoinsMissing | CoinsNotList | CoinsList "'c list"

datatype 'c json_file = BadJson | NonDict | Dict "'c coins_entry"

text \<open>The requests, sleeps and file writes of a run, in the order the code performs them.\<close>

datatype event = HttpGet int | Sleep nat | WritePage int write_outcome | WriteState int write_outcome

text \<open>
  The world a run executes in. \<open>http page k\<close> is what the remote endpoint answers to
  the request for \<open>page\<close> made when \<^verbatim>\<open>retries = k\<close>; within one run every pair
  \<open>(page, k)\<close> is requested at most once, so any behaviour of the endpoint during a run
  is such a function. \<open>makedirs_raises page\<close> says whether
  \<^verbatim>\<open>os.makedirs(OUTPUT_DIR, exist_ok=True)\<close> raises when page \<open>page\<close> is about to be
  stored (\<^verbatim>\<open>coin_pages\<close> is a regular file, or the working directory cannot be
  written). \<open>page_write\<close> and \<open>state_write\<close> say how the write of a page artifact,
  respectively of the progress artifact, ends. \<open>trace\<close> records the effects.
\<close>

datatype os_error = OSError

record 'c world =
  http :: "int \<Rightarrow> nat \<Rightarrow> 'c response"
  makedirs_raises :: "int \<Rightarrow> bool"
  page_write :: "int \<Rightarrow> write_outcome"
  state_write :: "int \<Rightarrow> write_outcome"
  page_files :: "int \<rightharpoonup> 'c json_file"
  state_file :: state_file
  trace :: "event list"

definition emit :: "event \<Rightarrow> 'c world \<Rightarrow> 'c world" where
  "emit e w = w\<lparr>trace := trace w @ [e]\<rparr>"

definition sleep :: "nat \<Rightarrow> 'c world \<Rightarrow> 'c world" where
  "sleep n w = emit (Sleep n) w"

subsection \<open>ProgressTracker: load\_state, save\_state\<close>

text \<open>\<^verbatim>\<open>load_state()["last_page"]\<close>: \<open>None\<close> is Python's \<^verbatim>\<open>None\<close> (a stored null).\<close>

definition load_state :: "'c world \<Rightarrow> int option" where
  "load_state w =
     (case state_file w of
        NoStateFile \<Rightarrow> Some 0
      | BadStateFile \<Rightarrow> Some 0
      | StateNotDict \<Rightarrow> Some 0
      | StateDict KeyMissing \<Rightarrow> Some 0
      | StateDict JsonNull \<Rightarrow> None
      | StateDict (JsonInt n) \<Rightarrow> Some n)"

definition save_state :: "int \<Rightarrow> 'c world \<Rightarrow> 'c world" where
  "save_state last_page w =
     (case state_write w last_page of
        Written \<Rightarrow> emit (WriteState last_page Written) (w\<lparr>state_file := StateDict (JsonInt last_page)\<rparr>)
      | OpenFails \<Rightarrow> emit (WriteState last_page OpenFails) w
      | DumpFails \<Rightarrow> emit (WriteState last_page DumpFails) (w\<lparr>state_file := BadStateFile\<rparr>))"

subsection \<open>PageFetcher: fetch\_page\<close>

function fetch_page_loop :: "int \<Rightarrow> nat \<Rightarrow> 'c world \<Rightarrow> 'c list \<times> 'c world" where
  "fetch_page_loop page retries w =
     (if retries < MAX_RETRIES_PER_PAGE then
        (case http w page retries of
           TooManyRequests \<Rightarrow> fetch_page_loop page (retries + 1) (sleep 60 (emit (HttpGet page) w))
         | RequestFailed \<Rightarrow> fetch_page_loop page (retries + 1) (sleep 5 (emit (HttpGet page) w))
         | NotAList \<Rightarrow> ([], emit (HttpGet page) w)
         | DataList data \<Rightarrow> (data, emit (HttpGet page) w))
      else ([], w))"
  by pat_completeness auto
termination
  by (relation "measure (\<lambda>(page, retries, w). MAX_RETRIES_PER_PAGE - retries)") auto

declare fetch_page_loop.simps [simp del]

definition fetch_page :: "int \<Rightarrow> 'c world \<Rightarrow> 'c list \<times> 'c world" where
  "fetch_page page w = fetch_page_loop page 0 w"

subsection \<open>PageStore: save\_page\_data\<close>

text \<open>
  \<open>write_page\<close> is the \<^verbatim>\<open>try\<close> block of the function (lines 125--130): it
  catches the exception of a failed write and goes on, so the caller cannot tell.
  \<^verbatim>\<open>os.makedirs\<close> (line 114) stands before the \<^verbatim>\<open>try\<close>: its exception leaves
  \<^verbatim>\<open>save_page_data\<close>, and nothing in \<^verbatim>\<open>fetch_coin_infos\<close> catches it.
\<close>

definition write_page :: "int \<Rightarrow> 'c list \<Rightarrow> 'c world \<Rightarrow> 'c world" where
  "write_page page coins w =
     (case page_write w page of
        Written \<Rightarrow> emit (WritePage page Written)
                     (w\<lparr>page_files := (page_files w)(page \<mapsto> Dict (CoinsList coins))\<rparr>)
      | OpenFails \<Rightarrow> emit (WritePage page OpenFails) w
      | DumpFails \<Rightarrow> emit (WritePage page DumpFails)
                     (w\<lparr>page_files := (page_files w)(page \<mapsto> BadJson)\<rparr>))"

definition save_page_data :: "int \<Rightarrow> 'c list \<Rightarrow> 'c world \<Rightarrow> os_error + 'c world" where
  "save_page_data page coins w =
     (if makedirs_raises w page then Inl OSError else Inr (write_page page coins w))"

subsection \<open>IngestionController: fetch\_coin\_infos\<close>

text \<open>
  Start page resolution (lines 144--161): \<open>resume_page\<close> is the \<^verbatim>\<open>else\<close>
  branch, with \<^verbatim>\<open>int(state.get("last_page", 0) or 0)\<close> as \<open>last_page\<close>.
\<close>

definition resume_page :: "'c world \<Rightarrow> int" where
  "resume_page w =
     (let last_page = (case load_state w of None \<Rightarrow> 0 | Some n \<Rightarrow> if n = 0 then 0 else n)
      in if last_page \<ge> 0 then last_page + 1 else 1)"

definition resolve_start :: "int option \<Rightarrow> 'c world \<Rightarrow> int" where
  "resolve_start start_page w =
     (case start_page of
        None \<Rightarrow> resume_page w
      | Some s \<Rightarrow> if s > 0 then s else resume_page w)"

record loop_vars =
  fetched_pages :: int
  last_fetched_page :: int
  current_page :: int

text \<open>
  How the loop is left: by one of its three \<^verbatim>\<open>break\<close>s, or by the exception of
  \<^verbatim>\<open>save_page_data\<close>, which ends \<^verbatim>\<open>fetch_coin_infos\<close> without a return value.
\<close>

datatype stop = BudgetReached | NoData | ShortPage | Uncaught os_error

text \<open>
  The \<^verbatim>\<open>while True\<close> loop (lines 166--199). It need not end (no budget, and a source
  that keeps answering full pages), so it runs on fuel: one unit per iteration, and
  \<open>None\<close> as the reason when the fuel is used up before the loop is left.
\<close>

fun ingest_loop :: "nat \<Rightarrow> int option \<Rightarrow> loop_vars \<Rightarrow> 'c world \<Rightarrow> stop option \<times> loop_vars \<times> 'c world" where
  "ingest_loop 0 max_pages v w = (None, v, w)"
| "ingest_loop (Suc fuel) max_pages v w =
     (if (case max_pages of None \<Rightarrow> False | Some m \<Rightarrow> fetched_pages v \<ge> m)
      then (Some BudgetReached, v, w)
      else
        (case fetch_page (current_page v) w of (coins, w1) \<Rightarrow>
           if coins = [] then (Some NoData, v, w1)
           else
             (case save_page_data (current_page v) coins w1 of
                Inl e \<Rightarrow> (Some (Uncaught e), v, w1)
              | Inr w2 \<Rightarrow>
                  (let w3 = save_state (current_page v) w2;
                       v' = \<lparr>fetched_pages = fetched_pages v + 1,
                             last_fetched_page = current_page v,
                             current_page = current_page v + 1\<rparr>;
                       w4 = sleep 1 w3
                   in if length coins < PER_PAGE then (Some ShortPage, v', w4)
                      else ingest_loop fuel max_pages v' w4))))"

text \<open>
  The second component is the value the function returns; for a run that
  \<open>Uncaught\<close> ended it is the value of \<^verbatim>\<open>last_fetched_page\<close> at that moment.
\<close>

definition fetch_coin_infos ::
  "nat \<Rightarrow> int option \<Rightarrow> int option \<Rightarrow> 'c world \<Rightarrow> stop option \<times> int \<times> 'c world" where
  "fetch_coin_infos fuel max_pages start_page w =
     (case ingest_loop fuel max_pages
             \<lparr>fetched_pages = 0, last_fetched_page = 0, current_page = resolve_start start_page w\<rparr> w of
        (r, v, w') \<Rightarrow> (r, last_fetched_page v, w'))"

subsection \<open>Observations on runs\<close>

text \<open>
  The definitions below are not code of the program: they name what the properties speak
  about. A response is \<open>retryable\<close> when \<^verbatim>\<open>fetch_page\<close> goes round its loop
  again after it; \<open>backoff\<close> is the sleep that precedes the next attempt;
  \<open>payload\<close> is what the first response that ends the loop makes the function return.
\<close>

fun retryable :: "'c response \<Rightarrow> bool" where
  "retryable TooManyRequests = True"
| "retryable RequestFailed = True"
| "retryable _ = False"

fun backoff :: "'c response \<Rightarrow> nat" where
  "backoff TooManyRequests = 60"
| "backoff _ = 5"

fun payload :: "'c response list \<Rightarrow> 'c list" where
  "payload (DataList d # _) = d"
| "payload _ = []"

definition attempt_events :: "int \<Rightarrow> 'c response list \<Rightarrow> event list" where
  "attempt_events page failed = concat (map (\<lambda>r. [HttpGet page, Sleep (backoff r)]) failed)"

text \<open>
  \<open>new_events w w'\<close> are the effects performed between the worlds \<open>w\<close> and
  \<open>w'\<close>; \<open>fetched w p\<close> is what \<^verbatim>\<open>fetch_page(p)\<close> returns in \<open>w\<close> and
  \<open>fetch_events w p\<close> the effects it performs; \<open>page_events w p\<close> are the effects of
  one complete iteration of the loop on page \<open>p\<close>.
\<close>

fun is_request :: "event \<Rightarrow> bool" where
  "is_request (HttpGet _) = True"
| "is_request _ = False"

definition new_events :: "'c world \<Rightarrow> 'c world \<Rightarrow> event list" where
  "new_events w w' = drop (length (trace w)) (trace w')"

definition fetched :: "'c world \<Rightarrow> int \<Rightarrow> 'c list" where
  "fetched w p = fst (fetch_page p w)"

definition fetch_events :: "'c world \<Rightarrow> int \<Rightarrow> event list" where
  "fetch_events w p = new_events w (snd (fetch_page p w))"

definition page_events :: "'c world \<Rightarrow> int \<Rightarrow> event list" where
  "page_events w p =
     fetch_events w p @ [WritePage p (page_write w p), WriteState p (state_write w p), Sleep 1]"

definition pages_from :: "int \<Rightarrow> nat \<Rightarrow> int list" where
  "pages_from c n = map (\<lambda>i. c + int i) [0..<n]"

definition budget_reached :: "int option \<Rightarrow> int \<Rightarrow> bool" where
  "budget_reached max_pages n = (case max_pages of None \<Rightarrow> False | Some m \<Rightarrow> n \<ge> m)"

definition same_env :: "'c world \<Rightarrow> 'c world \<Rightarrow> bool" where
  "same_env w w' =
     (http w' = http w \<and> makedirs_raises w' = makedirs_raises w
      \<and> page_write w' = page_write w \<and> state_write w' = state_write w)"

definition after_page :: "int \<Rightarrow> 'c world \<Rightarrow> 'c world" where
  "after_page p w = sleep 1 (save_state p (write_page p (fetched w p) (snd (fetch_page p w))))"

definition next_vars :: "loop_vars \<Rightarrow> loop_vars" where
  "next_vars v = \<lparr>fetched_pages = fetched_pages v + 1, last_fetched_page = current_page v,
                  current_page = current_page v + 1\<rparr>"

text \<open>What the two writes of one iteration leave on disk.\<close>

definition store_effect :: "'c world \<Rightarrow> int \<Rightarrow> (int \<rightharpoonup> 'c json_file) \<Rightarrow> (int \<rightharpoonup> 'c json_file)" where
  "store_effect w p files =
     (case page_write w p of
        Written \<Rightarrow> files(p \<mapsto> Dict (CoinsList (fetched w p)))
      | OpenFails \<Rightarrow> files
      | DumpFails \<Rightarrow> files(p \<mapsto> BadJson))"

definition progress_effect :: "'c world \<Rightarrow> int \<Rightarrow> state_file \<Rightarrow> state_file" where
  "progress_effect w p s =
     (case state_write w p of
        Written \<Rightarrow> StateDict (JsonInt p)
      | OpenFails \<Rightarrow> s
      | DumpFails \<Rightarrow> BadStateFile)"

text \<open>
  \<open>run_of w max_pages v n r v' w'\<close>: started in world \<open>w\<close> with loop variables
  \<open>v\<close>, the loop completed \<open>n\<close> pages and then ended with \<open>r\<close>, loop variables
  \<open>v'\<close> and world \<open>w'\<close>.
\<close>

definition run_of ::
  "'c world \<Rightarrow> int option \<Rightarrow> loop_vars \<Rightarrow> nat \<Rightarrow> stop option \<Rightarrow> loop_vars \<Rightarrow> 'c world \<Rightarrow> bool" where
  "run_of w max_pages v n r v' w' =
     (fetched_pages v' = fetched_pages v + int n
      \<and> current_page v' = current_page v + int n
      \<and> last_fetched_page v' = (if n = 0 then last_fetched_page v else current_page v + int n - 1)
      \<and> same_env w w'
      \<and> trace w' = trace w @ concat (map (page_events w) (pages_from (current_page v) n))
                     @ (if r = Some NoData \<or> r = Some (Uncaught OSError)
                        then fetch_events w (current_page v + int n) else [])
      \<and> page_files w' = fold (store_effect w) (pages_from (current_page v) n) (page_files w)
      \<and> state_file w' = fold (progress_effect w) (pages_from (current_page v) n) (state_file w)
      \<and> (\<forall>i<n. fetched w (current_page v + int i) \<noteq> []
                \<and> \<not> makedirs_raises w (current_page v + int i)
                \<and> \<not> budget_reached max_pages (fetched_pages v + int i)
                \<and> (Suc i < n \<or> r \<noteq> Some ShortPage
                     \<longrightarrow> PER_PAGE \<le> length (fetched w (current_page v + int i))))
      \<and> (case r of
            None \<Rightarrow> True
          | Some BudgetReached \<Rightarrow> budget_reached max_pages (fetched_pages v + int n)
          | Some NoData \<Rightarrow> \<not> budget_reached max_pages (fetched_pages v + int n)
                           \<and> fetched w (current_page v + int n) = []
          | Some ShortPage \<Rightarrow> 0 < n \<and> length (fetched w (current_page v + int n - 1)) < PER_PAGE
          | Some (Uncaught e) \<Rightarrow> \<not> budget_reached max_pages (fetched_pages v + int n)
                                  \<and> fetched w (current_page v + int n) \<noteq> []
                                  \<and> makedirs_raises w (current_page v + int n)))"

text \<open>The pages for which a run called \<^verbatim>\<open>save_page_data\<close>, respectively
  \<^verbatim>\<open>save_state\<close>, in call order.\<close>

fun stored_pages :: "event list \<Rightarrow> int list" where
  "stored_pages [] = []"
| "stored_pages (WritePage p _ # es) = p # stored_pages es"
| "stored_pages (_ # es) = stored_pages es"

fun advanced_pages :: "event list \<Rightarrow> int list" where
  "advanced_pages [] = []"
| "advanced_pages (WriteState p _ # es) = p # advanced_pages es"
| "advanced_pages (_ # es) = advanced_pages es"

subsection \<open>Concrete worlds\<close>

definition sample_env ::
  "(int \<Rightarrow> nat \<Rightarrow> nat response) \<Rightarrow> (int \<Rightarrow> write_outcome) \<Rightarrow> (int \<Rightarrow> write_outcome)
     \<Rightarrow> state_file \<Rightarrow> nat world" where
  "sample_env h pw sw st =
     \<lparr>http = h, makedirs_raises = (\<lambda>_. False), page_write = pw, state_write = sw,
      page_files = Map.empty, state_file = st, trace = []\<rparr>"

definition sample_http :: "int \<Rightarrow> nat \<Rightarrow> nat response" where
  "sample_http page k = (if k < 2 then TooManyRequests else DataList [7, 8])"

definition one_short_page :: "int \<Rightarrow> nat \<Rightarrow> nat response" where
  "one_short_page page k = (if page = 1 then DataList [7, 8] else DataList [])"

definition no_data :: "int \<Rightarrow> nat \<Rightarrow> nat response" where
  "no_data page k = DataList []"

definition resumed_world :: "nat world" where
  "resumed_world = sample_env no_data (\<lambda>_. Written) (\<lambda>_. Written) (StateDict (JsonInt 4))"

definition first_run_world :: "nat world" where
  "first_run_world = sample_env one_short_page (\<lambda>_. Written) (\<lambda>_. Written) NoStateFile"

definition after_first_run :: "nat world" where
  "after_first_run =
     \<lparr>http = one_short_page, makedirs_raises = (\<lambda>_. False),
      page_write = (\<lambda>_. Written), state_write = (\<lambda>_. Written),
      page_files = [1 \<mapsto> Dict (CoinsList [7, 8])], state_file = StateDict (JsonInt 1),
      trace = [HttpGet 1, WritePage 1 Written, WriteState 1 Written, Sleep 1]\<rparr>"

definition no_directory :: "nat world" where
  "no_directory =
     (sample_env one_short_page (\<lambda>_. Written) (\<lambda>_. Written) NoStateFile)
       \<lparr>makedirs_raises := (\<lambda>_. True)\<rparr>"

section \<open>Aggregation, filtering and scoring (select\_coin.py)\<close>

subsection \<open>Records\<close>

text \<open>
  A record is a JSON object read with \<^verbatim>\<open>coin.get(key)\<close>. A field is \<open>None\<close> when
  the key is absent; for the numeric fields also when its value is null (the code maps
  both to the same default). Numbers are real numbers: the rounding of Python's floats is
  not modelled. \<open>name\<close> and \<open>symbol\<close> are strings when present, as the data model has
  them. \<open>excellent_score\<close> is the field \<^verbatim>\<open>filter_coins\<close> attaches.
\<close>

record coin =
  name :: "string option"
  symbol :: "string option"
  market_cap :: "real option"
  market_cap_rank :: "int option"
  total_volume :: "real option"
  price_change_percentage_24h :: "real option"
  price_change_percentage_7d :: "real option"
  ath_date :: "string option"
  ath_change_percentage :: "real option"
  excellent_score :: "real option"

definition MARKET_CAP_MAX :: real where
  "MARKET_CAP_MAX = 10000000000"

definition MARKET_CAP_MIN :: real where
  "MARKET_CAP_MIN = 100000000"

text \<open>\<^verbatim>\<open>coin.get(key, 0) or 0\<close> and \<^verbatim>\<open>coin.get('market_cap_rank', 999) or 999\<close>.\<close>

definition or_zero :: "real option \<Rightarrow> real" where
  "or_zero v = (case v of None \<Rightarrow> 0 | Some x \<Rightarrow> if x = 0 then 0 else x)"

definition or_999 :: "int option \<Rightarrow> int" where
  "or_999 v = (case v of None \<Rightarrow> 999 | Some r \<Rightarrow> if r = 0 then 999 else r)"

text \<open>\<^verbatim>\<open>coin.get(key, '')\<close> for the two string fields.\<close>

definition or_empty :: "string option \<Rightarrow> string" where
  "or_empty v = (case v of None \<Rightarrow> [] | Some s \<Rightarrow> s)"

subsection \<open>Strings and dates of the standard library\<close>

text \<open>
  \<^verbatim>\<open>str.upper\<close> on ASCII text: the letters a to z become A to Z and every other
  character stays. (Unicode case mapping of characters beyond ASCII is not modelled.)
  Python's \<^verbatim>\<open>x in s\<close> on strings is \<^const>\<open>sublist\<close>.
\<close>

definition upper_char :: "char \<Rightarrow> char" where
  "upper_char c =
     (case map_of (zip ''abcdefghijklmnopqrstuvwxyz'' ''ABCDEFGHIJKLMNOPQRSTUVWXYZ'') c of
        None \<Rightarrow> c
      | Some u \<Rightarrow> u)"

definition upper :: "string \<Rightarrow> string" where
  "upper s = map upper_char s"

text \<open>\<^verbatim>\<open>s.replace('Z', '+00:00')\<close>.\<close>

definition replace_Z :: "string \<Rightarrow> string" where
  "replace_Z s = concat (map (\<lambda>c. if c = CHR ''Z'' then ''+00:00'' else [c]) s)"

text \<open>
  A \<^verbatim>\<open>datetime\<close>: naive (a wall-clock reading) or aware (an instant), in microseconds.
  \<^verbatim>\<open>a < b\<close> compares two values of the same kind and raises \<^verbatim>\<open>TypeError\<close> on a
  naive and an aware one. \<^verbatim>\<open>datetime.fromisoformat\<close> itself is a parameter of the
  filter, \<open>None\<close> standing for its \<^verbatim>\<open>ValueError\<close>; its value on the constant string
  \<^verbatim>\<open>'2023-01-01T00:00:00+00:00'\<close> is \<open>cutoff_date\<close>.
\<close>

datatype datetime = Naive int | Aware int

datatype py_error = TypeError

fun dt_less :: "datetime \<Rightarrow> datetime \<Rightarrow> py_error + bool" where
  "dt_less (Naive a) (Naive b) = Inr (a < b)"
| "dt_less (Aware a) (Aware b) = Inr (a < b)"
| "dt_less (Naive a) (Aware b) = Inl TypeError"
| "dt_less (Aware a) (Naive b) = Inl TypeError"

definition cutoff_date :: datetime where
  "cutoff_date = Aware 1672531200000000"

subsection \<open>ScoringEngine: calculate\_score\<close>

definition calculate_score :: "coin \<Rightarrow> real" where
  "calculate_score coin =
     (let score = 0;
          mc = or_zero (market_cap coin);
          tv = or_zero (total_volume coin);
          price_change_24h = or_zero (price_change_percentage_24h coin);
          price_change_7d = or_zero (price_change_percentage_7d coin);
          rank = or_999 (market_cap_rank coin);
          score = (if mc > 0 then score + min ((tv / mc) * 100 / 5) 10 * 0.4 else score);
          score = (if price_change_24h > 0 then score + min (price_change_24h / 10) 10 * 0.3 else score);
          score = (if price_change_7d > 0 then score + min (price_change_7d / 20) 10 * 0.2 else score);
          score = (if rank \<le> 100 then score + (101 - real_of_int rank) / 10 * 0.1 else score)
      in score)"

subsection \<open>EligibilityFilter: is\_excellent\_coin\<close>

text \<open>The rejection reasons, one constructor per \<^verbatim>\<open>return (False, ...)\<close> of the
  function, with the values its message is formatted from.\<close>

datatype reason =
    Blacklisted string
  | UsdOrStaked
  | Staked
  | CapAboveMax real
  | CapBelowMin real
  | CapNotPositive
  | VolumeTooLow real
  | Drop24hTooLarge real
  | StaleAth string "real option"
  | AthDropTooLarge real

text \<open>The block guarded by \<^verbatim>\<open>if ath_date_str:\<close> (lines 246--258): \<open>Inr True\<close> when
  it rejects, \<open>Inr False\<close> when it passes on, \<open>Inl\<close> when the comparison raises.\<close>

definition stale_ath :: "(string \<Rightarrow> datetime option) \<Rightarrow> coin \<Rightarrow> py_error + bool" where
  "stale_ath fromisoformat coin =
     (case ath_date coin of
        None \<Rightarrow> Inr False
      | Some ath_date_str \<Rightarrow>
          if ath_date_str = [] then Inr False
          else
            (case fromisoformat (replace_Z ath_date_str) of
               None \<Rightarrow> Inr False
             | Some d \<Rightarrow>
                 (case dt_less d cutoff_date of
                    Inl e \<Rightarrow> Inl e
                  | Inr before \<Rightarrow>
                      Inr (before \<and> (case ath_change_percentage coin of
                                        None \<Rightarrow> True
                                      | Some a \<Rightarrow> a < - 95)))))"

definition is_excellent_coin ::
  "(string \<Rightarrow> datetime option) \<Rightarrow> string list \<Rightarrow> coin \<Rightarrow> py_error + (bool \<times> reason option)" where
  "is_excellent_coin fromisoformat blacklist_keywords coin =
     (let mc = or_zero (market_cap coin);
          tv = or_zero (total_volume coin);
          change_24h = or_zero (price_change_percentage_24h coin);
          nm = upper (or_empty (name coin));
          sy = upper (or_empty (symbol coin))
      in case find (\<lambda>kw. kw = nm \<or> sy = kw) blacklist_keywords of
           Some kw \<Rightarrow> Inr (False, Some (Blacklisted kw))
         | None \<Rightarrow>
             if sublist ''USD'' nm \<or> sublist ''USD'' sy \<or> sublist ''USDT'' nm
                \<or> sublist ''STAKED'' nm \<or> sublist ''STAKED'' sy
             then Inr (False, Some UsdOrStaked)
             else if sublist ''STAKED'' nm \<or> sublist ''STAKED'' sy
             then Inr (False, Some Staked)
             else if mc > MARKET_CAP_MAX then Inr (False, Some (CapAboveMax mc))
             else if mc < MARKET_CAP_MIN then Inr (False, Some (CapBelowMin mc))
             else if mc \<le> 0 then Inr (False, Some CapNotPositive)
             else if tv < 600000 then Inr (False, Some (VolumeTooLow tv))
             else if change_24h < - 20 then Inr (False, Some (Drop24hTooLarge change_24h))
             else
               (case stale_ath fromisoformat coin of
                  Inl e \<Rightarrow> Inl e
                | Inr True \<Rightarrow>
                    Inr (False, Some (StaleAth (or_empty (ath_date coin)) (ath_change_percentage coin)))
                | Inr False \<Rightarrow>
                    (case ath_change_percentage coin of
                       None \<Rightarrow> Inr (True, None)
                     | Some a \<Rightarrow>
                         if a < - 98 then Inr (False, Some (AthDropTooLarge a))
                         else Inr (True, None))))"

subsection \<open>CoinAggregator: \_load\_coins\_from\_local\_pages, get\_all\_coins\<close>

text \<open>
  Python's \<^verbatim>\<open>xs[:limit]\<close>: the first \<open>limit\<close> elements, and for a negative
  \<open>limit\<close> all but the last \<open>- limit\<close>.
\<close>

definition py_take :: "int \<Rightarrow> 'a list \<Rightarrow> 'a list" where
  "py_take limit xs =
     (if limit \<ge> 0 then take (nat limit) xs else take (length xs - nat (- limit)) xs)"

text \<open>
  The files the selector reads. \<open>pages_dir\<close> is \<open>None\<close> when \<^verbatim>\<open>coin_pages\<close> is no
  directory, and else its entries in the order \<^verbatim>\<open>os.listdir\<close> gives them, each with
  what decoding it yields (\<open>BadJson\<close> also when it cannot be opened). \<open>cache_file\<close> is
  \<^verbatim>\<open>all_coins_cache.json\<close>; \<open>cache_write\<close> says how writing it ends. For the cache,
  \<open>CoinsNotList\<close> stands for a value under \<^verbatim>\<open>coins\<close> that is falsy or cannot be
  sliced (the artifact's schema makes it a list).
\<close>

record 'c selector_files =
  pages_dir :: "(string \<times> 'c json_file) list option"
  cache_file :: "'c json_file option"
  cache_write :: write_outcome

text \<open>The page number of a directory entry (lines 64--69); \<open>int_of_str\<close> is Python's
  \<^verbatim>\<open>int\<close> on a string, \<open>None\<close> for its \<^verbatim>\<open>ValueError\<close>.\<close>

definition page_num_of :: "(string \<Rightarrow> int option) \<Rightarrow> string \<Rightarrow> int option" where
  "page_num_of int_of_str nm =
     (if \<not> prefix ''page_'' nm \<or> \<not> suffix ''.json'' nm then None
      else int_of_str (take (length nm - 5 - 5) (drop 5 nm)))"

definition page_files_of ::
  "(string \<Rightarrow> int option) \<Rightarrow> (string \<times> 'c json_file) list \<Rightarrow> (int \<times> 'c json_file) list" where
  "page_files_of int_of_str entries =
     List.map_filter (\<lambda>(nm, file). map_option (\<lambda>n. (n, file)) (page_num_of int_of_str nm)) entries"

text \<open>The loop over the sorted page files (lines 79--94).\<close>

fun load_loop :: "int \<Rightarrow> (int \<times> 'c json_file) list \<Rightarrow> 'c list \<Rightarrow> 'c list" where
  "load_loop limit [] coins = coins"
| "load_loop limit ((page_num, file) # rest) coins =
     (if int (length coins) \<ge> limit then coins
      else
        (case file of
           BadJson \<Rightarrow> load_loop limit rest coins
         | NonDict \<Rightarrow> load_loop limit rest coins
         | Dict CoinsMissing \<Rightarrow> load_loop limit rest (coins @ [])
         | Dict CoinsNotList \<Rightarrow> load_loop limit rest coins
         | Dict (CoinsList page_coins) \<Rightarrow> load_loop limit rest (coins @ page_coins)))"

definition load_coins_from_local_pages ::
  "(string \<Rightarrow> int option) \<Rightarrow> int \<Rightarrow> 'c selector_files \<Rightarrow> 'c list" where
  "load_coins_from_local_pages int_of_str limit fs =
     (case pages_dir fs of
        None \<Rightarrow> []
      | Some entries \<Rightarrow>
          (let page_files = page_files_of int_of_str entries
           in if page_files = [] then []
              else py_take limit (load_loop limit (sort_key fst page_files) [])))"

definition get_all_coins ::
  "(string \<Rightarrow> int option) \<Rightarrow> int \<Rightarrow> 'c selector_files \<Rightarrow> 'c list \<times> 'c selector_files" where
  "get_all_coins int_of_str limit fs =
     (case cache_file fs of
        Some (Dict (CoinsList (c # cs))) \<Rightarrow> (py_take limit (c # cs), fs)
      | _ \<Rightarrow>
          (let coins = load_coins_from_local_pages int_of_str limit fs
           in if coins = [] then ([], fs)
              else
                (case cache_write fs of
                   Written \<Rightarrow> (py_take limit coins, fs\<lparr>cache_file := Some (Dict (CoinsList coins))\<rparr>)
                 | OpenFails \<Rightarrow> (py_take limit coins, fs)
                 | DumpFails \<Rightarrow> (py_take limit coins, fs\<lparr>cache_file := Some BadJson\<rparr>))))"

subsection \<open>RankedSelector: filter\_coins\<close>

record rejected_coin =
  rej_name :: "string option"
  rej_symbol :: "string option"
  rej_market_cap :: "real option"
  rej_market_cap_rank :: "int option"
  rej_total_volume :: "real option"
  rej_price_change_percentage_24h :: "real option"
  filter_reason :: "reason option"

text \<open>The loop over \<^verbatim>\<open>all_coins\<close> (lines 285--302); an exception of
  \<^verbatim>\<open>is_excellent_coin\<close> ends it.\<close>

fun filter_loop ::
  "(string \<Rightarrow> datetime option) \<Rightarrow> string list \<Rightarrow> coin list \<Rightarrow> coin list \<Rightarrow> rejected_coin list
     \<Rightarrow> py_error + (coin list \<times> rejected_coin list)" where
  "filter_loop fromisoformat blacklist_keywords [] filtered_coins filtered_out_coins =
     Inr (filtered_coins, filtered_out_coins)"
| "filter_loop fromisoformat blacklist_keywords (coin # rest) filtered_coins filtered_out_coins =
     (case is_excellent_coin fromisoformat blacklist_keywords coin of
        Inl e \<Rightarrow> Inl e
      | Inr (is_excellent, why) \<Rightarrow>
          if is_excellent
          then filter_loop fromisoformat blacklist_keywords rest
                 (filtered_coins @ [coin\<lparr>excellent_score := Some (calculate_score coin)\<rparr>])
                 filtered_out_coins
          else filter_loop fromisoformat blacklist_keywords rest filtered_coins
                 (filtered_out_coins @
                    [\<lparr>rej_name = name coin, rej_symbol = symbol coin,
                      rej_market_cap = market_cap coin,
                      rej_market_cap_rank = market_cap_rank coin,
                      rej_total_volume = total_volume coin,
                      rej_price_change_percentage_24h = price_change_percentage_24h coin,
                      filter_reason = why\<rparr>]))"

text \<open>
  The key of the final sort, \<^verbatim>\<open>x.get('excellent_score', 0)\<close>.
  \<^verbatim>\<open>list.sort(key=..., reverse=True)\<close> is a stable sort into descending order of the
  key: \<^const>\<open>sort_key\<close> on the negated key.
\<close>

definition score_key :: "coin \<Rightarrow> real" where
  "score_key x = (case excellent_score x of None \<Rightarrow> 0 | Some s \<Rightarrow> s)"

definition filter_coins ::
  "(string \<Rightarrow> int option) \<Rightarrow> (string \<Rightarrow> datetime option) \<Rightarrow> string list \<Rightarrow> int
     \<Rightarrow> coin selector_files
     \<Rightarrow> (py_error + (coin list \<times> rejected_coin list)) \<times> coin selector_files" where
  "filter_coins int_of_str fromisoformat blacklist_keywords limit fs =
     (case get_all_coins int_of_str limit fs of
        (all_coins, fs') \<Rightarrow>
          if all_coins = [] then (Inr ([], []), fs')
          else
            (case filter_loop fromisoformat blacklist_keywords all_coins [] [] of
               Inl e \<Rightarrow> (Inl e, fs')
             | Inr (filtered_coins, filtered_out_coins) \<Rightarrow>
                 (Inr (sort_key (\<lambda>x. - score_key x) filtered_coins, filtered_out_coins), fs')))"

subsection \<open>Notions the properties use\<close>

text \<open>
  The four sub-scores as the specification words them, and the preconditions of the data
  model on the fields the score reads.
\<close>

definition liquidity_subscore :: "coin \<Rightarrow> real" where
  "liquidity_subscore coin =
     (if or_zero (market_cap coin) > 0
      then min (or_zero (total_volume coin) / or_zero (market_cap coin) * 100 / 5) 10 * 0.4
      else 0)"

definition momentum_24h_subscore :: "coin \<Rightarrow> real" where
  "momentum_24h_subscore coin =
     (if or_zero (price_change_percentage_24h coin) > 0
      then min (or_zero (price_change_percentage_24h coin) / 10) 10 * 0.3
      else 0)"

definition momentum_7d_subscore :: "coin \<Rightarrow> real" where
  "momentum_7d_subscore coin =
     (if or_zero (price_change_percentage_7d coin) > 0
      then min (or_zero (price_change_percentage_7d coin) / 20) 10 * 0.2
      else 0)"

definition rank_subscore :: "coin \<Rightarrow> real" where
  "rank_subscore coin =
     (if or_999 (market_cap_rank coin) \<le> 100
      then (101 - real_of_int (or_999 (market_cap_rank coin))) / 10 * 0.1
      else 0)"

definition data_model_ok :: "coin \<Rightarrow> bool" where
  "data_model_ok coin =
     ((case market_cap coin of None \<Rightarrow> True | Some x \<Rightarrow> 0 \<le> x)
      \<and> (case total_volume coin of None \<Rightarrow> True | Some x \<Rightarrow> 0 \<le> x)
      \<and> (case market_cap_rank coin of None \<Rightarrow> True | Some r \<Rightarrow> 1 \<le> r))"

text \<open>
  The eligibility rules as the specification lists them, each a predicate with its
  reason: the blacklist keywords in their order, the USD/USDT/STAKED heuristic, the
  market-cap ceiling and floor, the volume floor and the 24h drawdown; then, given what
  the ATH block computed, the stale ATH and the ATH drawdown. \<open>first_failing\<close> is the
  reason of the first rule whose predicate holds.
\<close>

definition first_failing :: "(bool \<times> reason) list \<Rightarrow> reason option" where
  "first_failing rules = map_option snd (find fst rules)"

definition rules_1_to_6 :: "string list \<Rightarrow> coin \<Rightarrow> (bool \<times> reason) list" where
  "rules_1_to_6 blacklist_keywords coin =
     (let nm = upper (or_empty (name coin)); sy = upper (or_empty (symbol coin));
          mc = or_zero (market_cap coin); tv = or_zero (total_volume coin);
          ch = or_zero (price_change_percentage_24h coin)
      in map (\<lambda>kw. (kw = nm \<or> kw = sy, Blacklisted kw)) blacklist_keywords @
         [(sublist ''USD'' nm \<or> sublist ''USDT'' nm \<or> sublist ''STAKED'' nm
           \<or> sublist ''USD'' sy \<or> sublist ''USDT'' sy \<or> sublist ''STAKED'' sy, UsdOrStaked),
          (mc > MARKET_CAP_MAX, CapAboveMax mc),
          (mc < MARKET_CAP_MIN, CapBelowMin mc),
          (tv < 600000, VolumeTooLow tv),
          (ch < - 20, Drop24hTooLarge ch)])"

definition rules_7_8 :: "bool \<Rightarrow> coin \<Rightarrow> (bool \<times> reason) list" where
  "rules_7_8 stale coin =
     [(stale, StaleAth (or_empty (ath_date coin)) (ath_change_percentage coin)),
      (case ath_change_percentage coin of None \<Rightarrow> False | Some a \<Rightarrow> a < - 98,
       AthDropTooLarge (case ath_change_percentage coin of None \<Rightarrow> 0 | Some a \<Rightarrow> a))]"

text \<open>
  The accepted records in aggregation order, each with its score attached: what
  \<^verbatim>\<open>filtered_coins\<close> holds before the sort.
\<close>

definition accepts :: "(string \<Rightarrow> datetime option) \<Rightarrow> string list \<Rightarrow> coin \<Rightarrow> bool" where
  "accepts fromisoformat blacklist_keywords coin =
     (case is_excellent_coin fromisoformat blacklist_keywords coin of
        Inl e \<Rightarrow> False
      | Inr (is_excellent, why) \<Rightarrow> is_excellent)"

definition scored :: "coin \<Rightarrow> coin" where
  "scored coin = coin\<lparr>excellent_score := Some (calculate_score coin)\<rparr>"

definition aggregation_order ::
  "(string \<Rightarrow> datetime option) \<Rightarrow> string list \<Rightarrow> coin list \<Rightarrow> coin list" where
  "aggregation_order fromisoformat blacklist_keywords all_coins =
     map scored (filter (accepts fromisoformat blacklist_keywords) all_coins)"

text \<open>
  The page-number-ordered concatenation of the page store: the records of every page file
  that decodes into a dictionary with a list under \<^verbatim>\<open>coins\<close>.
\<close>

fun coins_of :: "int \<times> 'c json_file \<Rightarrow> 'c list" where
  "coins_of (page_num, Dict (CoinsList page_coins)) = page_coins"
| "coins_of _ = []"

definition pages_concat :: "(string \<Rightarrow> int option) \<Rightarrow> 'c selector_files \<Rightarrow> 'c list" where
  "pages_concat int_of_str fs =
     (case pages_dir fs of
        None \<Rightarrow> []
      | Some entries \<Rightarrow> concat (map coins_of (sort_key fst (page_files_of int_of_str entries))))"

subsection \<open>Concrete records and files\<close>

text \<open>
  \<open>scenario_coin\<close> is the record of the specification's first scenario.
  \<open>fromisoformat_on_samples\<close> and \<open>int_of_str_on_samples\<close> give the values of
  \<^verbatim>\<open>datetime.fromisoformat\<close> and \<^verbatim>\<open>int\<close> on the strings the examples use.
\<close>

definition scenario_coin :: coin where
  "scenario_coin =
     \<lparr>name = None, symbol = None, market_cap = Some 5000000000, market_cap_rank = Some 50,
      total_volume = Some 300000000, price_change_percentage_24h = Some 5,
      price_change_percentage_7d = Some 10, ath_date = Some ''2023-06-01'',
      ath_change_percentage = Some (- 40), excellent_score = None\<rparr>"

definition fromisoformat_on_samples :: "string \<Rightarrow> datetime option" where
  "fromisoformat_on_samples s =
     (if s = ''2023-06-01'' then Some (Naive 1685577600000000)
      else if s = ''2021-11-10T14:24:11.849+00:00'' then Some (Aware 1636554251849000)
      else None)"

definition usd_coin :: coin where
  "usd_coin =
     \<lparr>name = Some ''Tether'', symbol = Some ''usdt'', market_cap = Some 5000000000,
      market_cap_rank = Some 3, total_volume = Some 300000000,
      price_change_percentage_24h = Some 0, price_change_percentage_7d = Some 0,
      ath_date = Some ''2021-11-10T14:24:11.849Z'', ath_change_percentage = Some (- 40),
      excellent_score = None\<rparr>"

definition plain_coin :: "string \<Rightarrow> real \<Rightarrow> coin" where
  "plain_coin nm volume =
     \<lparr>name = Some nm, symbol = Some nm, market_cap = Some 1000000000, market_cap_rank = None,
      total_volume = Some volume, price_change_percentage_24h = None,
      price_change_percentage_7d = None, ath_date = None, ath_change_percentage = None,
      excellent_score = None\<rparr>"

definition cached_coins :: "coin selector_files" where
  "cached_coins =
     \<lparr>pages_dir = None,
      cache_file = Some (Dict (CoinsList
        [plain_coin ''aaa'' 100000000, plain_coin ''bbb'' 100000000, plain_coin ''ccc'' 200000000])),
      cache_write = Written\<rparr>"

definition int_of_str_on_samples :: "string \<Rightarrow> int option" where
  "int_of_str_on_samples s = (if s = ''1'' then Some 1 else if s = ''2'' then Some 2 else None)"

definition two_pages :: "nat selector_files" where
  "two_pages =
     \<lparr>pages_dir = Some [(''page_2.json'', Dict (CoinsList [4, 5])),
                        (''notes.txt'', BadJson),
                        (''page_1.json'', Dict (CoinsList [1, 2, 3]))],
      cache_file = None, cache_write = Written\<rparr>"

definition two_pages_cached :: "nat selector_files" where
  "two_pages_cached = two_pages\<lparr>cache_file := Some (Dict (CoinsList [1, 2, 3]))\<rparr>"

section \<open>Properties of the ingestion pipeline\<close>

subsection \<open>Bounded retry of one page\<close>

lemma http_emit [simp]: "http (emit e w) = http w"
  by (simp add: emit_def)
lemma http_sleep [simp]: "http (sleep n w) = http w"
  by (simp add: sleep_def)

lemma fetch_page_loop_char:
  "fetch_page_loop page r w =
     (let answers = map (http w page) [r..<MAX_RETRIES_PER_PAGE];
          failed = takeWhile retryable answers;
          rest = dropWhile retryable answers
      in (payload rest,
          w\<lparr>trace := trace w @ attempt_events page failed @ (if rest = [] then [] else [HttpGet page])\<rparr>))"
proof (induction page r w rule: fetch_page_loop.induct)
  case (1 page retries w)
  show ?case
  proof (cases "retries < MAX_RETRIES_PER_PAGE")
    case False
    then show ?thesis
      by (simp add: fetch_page_loop.simps [of page retries w] attempt_events_def)
  next
    case True
    then have upt: "[retries..<MAX_RETRIES_PER_PAGE] = retries # [retries + 1..<MAX_RETRIES_PER_PAGE]"
      by (simp add: upt_conv_Cons)
    show ?thesis
    proof (cases "http w page retries")
      case TooManyRequests
      with True 1(1) [OF True TooManyRequests] show ?thesis
        apply (subst fetch_page_loop.simps)
        apply (simp add: upt Let_def attempt_events_def emit_def sleep_def del: upt_Suc)
        done
    next
      case RequestFailed
      with True 1(2) [OF True RequestFailed] show ?thesis
        apply (subst fetch_page_loop.simps)
        apply (simp add: upt Let_def attempt_events_def emit_def sleep_def del: upt_Suc)
        done
    next
      case NotAList
      with True show ?thesis
        apply (subst fetch_page_loop.simps)
        apply (simp add: upt Let_def attempt_events_def emit_def del: upt_Suc)
        done
    next
      case (DataList d)
      with True show ?thesis
        apply (subst fetch_page_loop.simps)
        apply (simp add: upt Let_def attempt_events_def emit_def del: upt_Suc)
        done
    qed
  qed
qed

lemma upt3: "[0..<MAX_RETRIES_PER_PAGE] = [0, 1, 2]"
  by (simp add: MAX_RETRIES_PER_PAGE_def upt_rec)

lemma filter_attempt_events: "length (filter is_request (attempt_events page rs)) = length rs"
  by (induction rs) (simp_all add: attempt_events_def)

text \<open>
  Claim C4. \<^verbatim>\<open>fetch_page\<close> makes at most three requests for a page. A 429 answer and
  an exception each use up one attempt of the same budget of three, the first followed by
  a sleep of 60 and the second by a sleep of 5. The function returns what the first answer
  that is neither of the two carries: the records of a list, or the empty list for a
  payload that is not a list, with no request after it. When all three attempts fail the
  result is the empty list. In particular two 429 answers followed by a list return that
  list.
\<close>

theorem fetch_page_retry_budget:
  fixes w :: "'c world"
  shows "(let answers = map (http w page) [0..<MAX_RETRIES_PER_PAGE];
              failed = takeWhile retryable answers;
              rest = dropWhile retryable answers
          in fetch_page page w =
               (payload rest,
                w\<lparr>trace := trace w @ attempt_events page failed
                               @ (if rest = [] then [] else [HttpGet page])\<rparr>))
       \<and> length (filter is_request (new_events w (snd (fetch_page page w)))) \<le> 3
       \<and> (http w page 0 = TooManyRequests \<and> http w page 1 = TooManyRequests
            \<and> http w page 2 = DataList d
          \<longrightarrow> fst (fetch_page page w) = d
              \<and> new_events w (snd (fetch_page page w))
                  = [HttpGet page, Sleep 60, HttpGet page, Sleep 60, HttpGet page])
       \<and> ((\<forall>k < 3. retryable (http w page k))
          \<longrightarrow> fst (fetch_page page w) = []
              \<and> new_events w (snd (fetch_page page w))
                  = attempt_events page [http w page 0, http w page 1, http w page 2])
       \<and> (k < 3 \<and> (\<forall>j < k. retryable (http w page j)) \<and> http w page k = NotAList
          \<longrightarrow> fst (fetch_page page w) = []
              \<and> length (filter is_request (new_events w (snd (fetch_page page w)))) = k + 1)"
proof -
  let ?answers = "map (http w page) [0..<MAX_RETRIES_PER_PAGE]"
  let ?failed = "takeWhile retryable ?answers"
  let ?rest = "dropWhile retryable ?answers"
  have char: "fetch_page page w =
               (payload ?rest,
                w\<lparr>trace := trace w @ attempt_events page ?failed
                               @ (if ?rest = [] then [] else [HttpGet page])\<rparr>)"
    unfolding fetch_page_def by (simp add: fetch_page_loop_char Let_def)
  have new: "new_events w (snd (fetch_page page w))
               = attempt_events page ?failed @ (if ?rest = [] then [] else [HttpGet page])"
    by (simp add: char new_events_def)
  have len: "length ?failed + length ?rest = 3"
    using takeWhile_dropWhile_id [of retryable ?answers]
    by (metis length_append length_map length_upt MAX_RETRIES_PER_PAGE_def diff_zero)
  have cnt: "length (filter is_request (new_events w (snd (fetch_page page w))))
               = length ?failed + (if ?rest = [] then 0 else 1)"
    by (simp add: new filter_attempt_events)
  have "?rest \<noteq> [] \<Longrightarrow> length ?rest \<ge> 1"
    by (simp add: Suc_le_eq del: dropWhile_eq_Nil_conv)
  with len have "length ?failed + (if ?rest = [] then 0 else 1) \<le> 3"
    by (cases "?rest = []") (simp_all del: dropWhile_eq_Nil_conv)
  with cnt have c2: "length (filter is_request (new_events w (snd (fetch_page page w)))) \<le> 3"
    by simp
  have c3: "fst (fetch_page page w) = d
              \<and> new_events w (snd (fetch_page page w))
                  = [HttpGet page, Sleep 60, HttpGet page, Sleep 60, HttpGet page]"
    if "http w page 0 = TooManyRequests \<and> http w page 1 = TooManyRequests
            \<and> http w page 2 = DataList d"
    using that by (simp add: new_events_def char upt3 attempt_events_def)
  have c4: "fst (fetch_page page w) = []
              \<and> new_events w (snd (fetch_page page w))
                  = attempt_events page [http w page 0, http w page 1, http w page 2]"
    if "\<forall>k < 3. retryable (http w page k)"
  proof -
    from that have "retryable (http w page 0)" "retryable (http w page 1)" "retryable (http w page 2)"
      by simp_all
    then show ?thesis by (simp add: new_events_def char upt3)
  qed
  have c5: "fst (fetch_page page w) = []
              \<and> length (filter is_request (new_events w (snd (fetch_page page w)))) = k + 1"
    if h: "k < 3 \<and> (\<forall>j < k. retryable (http w page j)) \<and> http w page k = NotAList"
  proof -
    from h consider "k = 0" | "k = 1" | "k = 2" by linarith
    then show ?thesis
    proof cases
      case 1
      with h show ?thesis by (simp add: new_events_def char upt3 filter_attempt_events)
    next
      case 2
      with h have "retryable (http w page 0)" "http w page 1 = NotAList" by simp_all
      with 2 show ?thesis by (simp add: new_events_def char upt3 filter_attempt_events)
    next
      case 3
      with h have "retryable (http w page 0)" "retryable (http w page 1)" "http w page 2 = NotAList"
        by simp_all
      with 3 show ?thesis by (simp add: new_events_def char upt3 filter_attempt_events)
    qed
  qed
  show ?thesis
    using char c2 c3 c4 c5 by (simp only: Let_def) blast
qed

text \<open>The scenario of the claim: 429, 429, then the records 7 and 8.\<close>

theorem fetch_page_retry_budget_witness:
  "http (sample_env sample_http (\<lambda>_. Written) (\<lambda>_. Written) NoStateFile) 1 0 = TooManyRequests
   \<and> http (sample_env sample_http (\<lambda>_. Written) (\<lambda>_. Written) NoStateFile) 1 1 = TooManyRequests
   \<and> http (sample_env sample_http (\<lambda>_. Written) (\<lambda>_. Written) NoStateFile) 1 2 = DataList [7, 8]
   \<and> fst (fetch_page 1 (sample_env sample_http (\<lambda>_. Written) (\<lambda>_. Written) NoStateFile)) = [7, 8]
   \<and> new_events (sample_env sample_http (\<lambda>_. Written) (\<lambda>_. Written) NoStateFile) (snd (fetch_page 1 (sample_env sample_http (\<lambda>_. Written) (\<lambda>_. Written) NoStateFile)))
       = [HttpGet 1, Sleep 60, HttpGet 1, Sleep 60, HttpGet 1]"
  using fetch_page_retry_budget [of "sample_env sample_http (\<lambda>_. Written) (\<lambda>_. Written) NoStateFile" 1 "[7, 8]" 0]
  by (simp add: sample_env_def sample_http_def)

subsection \<open>How a run ends\<close>

lemma fetch_page_frame:
  "fetch_page p w = (fetched w p, w\<lparr>trace := trace w @ fetch_events w p\<rparr>)"
  unfolding fetched_def fetch_events_def new_events_def fetch_page_def
  by (simp add: fetch_page_loop_char Let_def)

lemma fetched_cong: "http w' = http w \<Longrightarrow> fetched w' p = fetched w p"
  unfolding fetched_def fetch_page_def by (simp add: fetch_page_loop_char Let_def)

lemma fetch_events_cong: "http w' = http w \<Longrightarrow> fetch_events w' p = fetch_events w p"
  unfolding fetch_events_def new_events_def fetch_page_def by (simp add: fetch_page_loop_char Let_def)

lemma fetch_events_first: "\<exists>evs. fetch_events w p = HttpGet p # evs"
proof -
  let ?answers = "map (http w p) [0..<MAX_RETRIES_PER_PAGE]"
  have ev: "fetch_events w p = attempt_events p (takeWhile retryable ?answers)
              @ (if dropWhile retryable ?answers = [] then [] else [HttpGet p])"
    unfolding fetch_events_def new_events_def fetch_page_def
    by (simp add: fetch_page_loop_char Let_def)
  show ?thesis
  proof (cases "retryable (http w p 0)")
    case True
    then show ?thesis unfolding ev by (simp add: upt3 attempt_events_def)
  next
    case False
    then show ?thesis unfolding ev by (simp add: upt3 attempt_events_def)
  qed
qed

lemma page_events_cong: "same_env w w' \<Longrightarrow> page_events w' p = page_events w p"
  using fetch_events_cong [of w' w p] by (simp add: page_events_def same_env_def)

lemma same_env_refl [simp]: "same_env w w"
  by (simp add: same_env_def)

lemma same_env_trans: "same_env w w1 \<Longrightarrow> same_env w1 w2 \<Longrightarrow> same_env w w2"
  by (simp add: same_env_def)

lemma after_page_env: "same_env w (after_page p w)"
  by (simp add: same_env_def after_page_def fetch_page_frame sleep_def emit_def save_state_def
      write_page_def split: write_outcome.split)

lemma after_page_trace: "trace (after_page p w) = trace w @ page_events w p"
  by (simp add: after_page_def fetch_page_frame sleep_def emit_def save_state_def
      write_page_def page_events_def split: write_outcome.split)

lemma after_page_files:
  "page_files (after_page p w) =
     (case page_write w p of
        Written \<Rightarrow> (page_files w)(p \<mapsto> Dict (CoinsList (fetched w p)))
      | OpenFails \<Rightarrow> page_files w
      | DumpFails \<Rightarrow> (page_files w)(p \<mapsto> BadJson))"
  by (simp add: after_page_def fetch_page_frame sleep_def emit_def save_state_def
      write_page_def split: write_outcome.split)

lemma after_page_state:
  "state_file (after_page p w) =
     (case state_write w p of
        Written \<Rightarrow> StateDict (JsonInt p)
      | OpenFails \<Rightarrow> state_file w
      | DumpFails \<Rightarrow> BadStateFile)"
  by (simp add: after_page_def fetch_page_frame sleep_def emit_def save_state_def
      write_page_def split: write_outcome.split)

lemma ingest_loop_step:
  "ingest_loop (Suc fuel) max_pages v w =
     (if budget_reached max_pages (fetched_pages v) then (Some BudgetReached, v, w)
      else if fetched w (current_page v) = []
      then (Some NoData, v, w\<lparr>trace := trace w @ fetch_events w (current_page v)\<rparr>)
      else if makedirs_raises w (current_page v)
      then (Some (Uncaught OSError), v, w\<lparr>trace := trace w @ fetch_events w (current_page v)\<rparr>)
      else if length (fetched w (current_page v)) < PER_PAGE
      then (Some ShortPage, next_vars v, after_page (current_page v) w)
      else ingest_loop fuel max_pages (next_vars v) (after_page (current_page v) w))"
  unfolding ingest_loop.simps budget_reached_def [symmetric] fetch_page_frame next_vars_def
    after_page_def sleep_def save_page_data_def
  apply (simp only: prod.case Let_def split: if_splits)
  apply (simp add: fetch_page_frame)
  done

lemma pages_from_Suc: "pages_from c (Suc n) = c # pages_from (c + 1) n"
proof -
  have "map (\<lambda>i. c + int i) [0..<Suc n] = c # map (\<lambda>i. c + 1 + int i) [0..<n]"
    by (simp add: upt_conv_Cons map_Suc_upt [symmetric] del: upt_Suc)
  then show ?thesis by (simp add: pages_from_def)
qed

lemma pages_from_0 [simp]: "pages_from c 0 = []"
  by (simp add: pages_from_def)

lemma store_effect_cong: "same_env w w' \<Longrightarrow> store_effect w' = store_effect w"
proof -
  assume env: "same_env w w'"
  then have "fetched w' = fetched w"
    using fetched_cong [of w' w] by (simp add: same_env_def fun_eq_iff)
  with env show ?thesis
    by (intro ext) (simp add: store_effect_def same_env_def split: write_outcome.split)
qed

lemma progress_effect_cong: "same_env w w' \<Longrightarrow> progress_effect w' = progress_effect w"
  by (simp add: progress_effect_def same_env_def fun_eq_iff)

lemma run_of_0_budget:
  "budget_reached mp (fetched_pages v) \<Longrightarrow> run_of w mp v 0 (Some BudgetReached) v w"
  by (simp add: run_of_def)

lemma run_of_0_fuel: "run_of w mp v 0 None v w"
  by (simp add: run_of_def)

lemma run_of_0_nodata:
  "\<not> budget_reached mp (fetched_pages v) \<Longrightarrow> fetched w (current_page v) = [] \<Longrightarrow>
   run_of w mp v 0 (Some NoData) v (w\<lparr>trace := trace w @ fetch_events w (current_page v)\<rparr>)"
  by (simp add: run_of_def same_env_def)

lemma run_of_0_uncaught:
  "\<not> budget_reached mp (fetched_pages v) \<Longrightarrow> fetched w (current_page v) \<noteq> [] \<Longrightarrow>
   makedirs_raises w (current_page v) \<Longrightarrow>
   run_of w mp v 0 (Some (Uncaught OSError)) v (w\<lparr>trace := trace w @ fetch_events w (current_page v)\<rparr>)"
  by (simp add: run_of_def same_env_def)

lemma run_of_1_short:
  "\<not> budget_reached mp (fetched_pages v) \<Longrightarrow> fetched w (current_page v) \<noteq> [] \<Longrightarrow>
   \<not> makedirs_raises w (current_page v) \<Longrightarrow>
   length (fetched w (current_page v)) < PER_PAGE \<Longrightarrow>
   run_of w mp v 1 (Some ShortPage) (next_vars v) (after_page (current_page v) w)"
  by (simp add: run_of_def after_page_env after_page_trace next_vars_def pages_from_Suc
      after_page_files after_page_state store_effect_def progress_effect_def)

lemma run_of_Suc:
  assumes nb: "\<not> budget_reached mp (fetched_pages v)"
    and ne: "fetched w (current_page v) \<noteq> []"
    and md: "\<not> makedirs_raises w (current_page v)"
    and full: "\<not> length (fetched w (current_page v)) < PER_PAGE"
    and rest: "run_of (after_page (current_page v) w) mp (next_vars v) n r v' w'"
  shows "run_of w mp v (Suc n) r v' w'"
proof -
  let ?w1 = "after_page (current_page v) w"
  have env: "same_env w ?w1" by (rule after_page_env)
  have pe: "page_events ?w1 = page_events w"
    using page_events_cong [OF env] by (simp add: fun_eq_iff)
  have fe: "fetch_events ?w1 = fetch_events w"
    using env fetch_events_cong [of ?w1 w] by (simp add: fun_eq_iff same_env_def)
  have fd: "fetched ?w1 = fetched w"
    using env fetched_cong [of ?w1 w] by (simp add: fun_eq_iff same_env_def)
  from rest have r1: "fetched_pages v' = fetched_pages v + int (Suc n)"
    and r2: "current_page v' = current_page v + int (Suc n)"
    and r3: "last_fetched_page v' = current_page v + int (Suc n) - 1"
    by (simp_all add: run_of_def next_vars_def)
  from rest env have r4: "same_env w w'"
    by (auto simp: run_of_def intro: same_env_trans)
  from rest have r5: "trace w' = trace w @ concat (map (page_events w) (pages_from (current_page v) (Suc n)))
                     @ (if r = Some NoData \<or> r = Some (Uncaught OSError)
                        then fetch_events w (current_page v + int (Suc n)) else [])"
    by (simp add: run_of_def pe fe after_page_trace pages_from_Suc next_vars_def add.assoc)
  from rest have r8: "page_files w' = fold (store_effect w) (pages_from (current_page v) (Suc n)) (page_files w)"
    by (simp add: run_of_def pages_from_Suc next_vars_def store_effect_cong [OF env]
        after_page_files) (simp add: store_effect_def)
  from rest have r9: "state_file w' = fold (progress_effect w) (pages_from (current_page v) (Suc n)) (state_file w)"
    by (simp add: run_of_def pages_from_Suc next_vars_def progress_effect_cong [OF env]
        after_page_state) (simp add: progress_effect_def)
  have mdeq: "makedirs_raises ?w1 = makedirs_raises w"
    using env by (simp add: same_env_def)
  from rest have r6': "\<forall>i<n. fetched w (current_page v + int (Suc i)) \<noteq> []
                \<and> \<not> makedirs_raises w (current_page v + int (Suc i))
                \<and> \<not> budget_reached mp (fetched_pages v + int (Suc i))
                \<and> (Suc (Suc i) < Suc n \<or> r \<noteq> Some ShortPage
                     \<longrightarrow> PER_PAGE \<le> length (fetched w (current_page v + int (Suc i))))"
    by (simp add: run_of_def fd mdeq next_vars_def add.assoc)
  have r6: "\<forall>i<Suc n. fetched w (current_page v + int i) \<noteq> []
                \<and> \<not> makedirs_raises w (current_page v + int i)
                \<and> \<not> budget_reached mp (fetched_pages v + int i)
                \<and> (Suc i < Suc n \<or> r \<noteq> Some ShortPage
                     \<longrightarrow> PER_PAGE \<le> length (fetched w (current_page v + int i)))"
    unfolding All_less_Suc2 using r6' nb ne md full by simp
  from rest have r7: "(case r of
            None \<Rightarrow> True
          | Some BudgetReached \<Rightarrow> budget_reached mp (fetched_pages v + int (Suc n))
          | Some NoData \<Rightarrow> \<not> budget_reached mp (fetched_pages v + int (Suc n))
                           \<and> fetched w (current_page v + int (Suc n)) = []
          | Some ShortPage \<Rightarrow> 0 < Suc n \<and> length (fetched w (current_page v + int (Suc n) - 1)) < PER_PAGE
          | Some (Uncaught e) \<Rightarrow> \<not> budget_reached mp (fetched_pages v + int (Suc n))
                                  \<and> fetched w (current_page v + int (Suc n)) \<noteq> []
                                  \<and> makedirs_raises w (current_page v + int (Suc n)))"
    by (auto simp: run_of_def fd mdeq next_vars_def add.assoc split: option.splits stop.splits)
  show ?thesis
    unfolding run_of_def using r1 r2 r3 r4 r5 r6 r7 r8 r9 by simp
qed

lemma ingest_loop_run:
  "ingest_loop fuel mp v w = (r, v', w') \<Longrightarrow> \<exists>n\<le>fuel. run_of w mp v n r v' w'"
proof (induction fuel arbitrary: v w)
  case 0
  then show ?case by (auto intro: run_of_0_fuel)
next
  case (Suc fuel)
  note [simp del] = ingest_loop.simps
  show ?case
  proof (cases "budget_reached mp (fetched_pages v)")
    case True
    with Suc.prems show ?thesis
      by (auto simp: ingest_loop_step intro: run_of_0_budget)
  next
    case nb: False
    show ?thesis
    proof (cases "fetched w (current_page v) = []")
      case True
      with nb Suc.prems show ?thesis
        by (auto simp: ingest_loop_step intro: run_of_0_nodata)
    next
      case ne: False
      show ?thesis
      proof (cases "makedirs_raises w (current_page v)")
        case True
        with nb ne Suc.prems have "r = Some (Uncaught OSError)" "v' = v"
          "w' = w\<lparr>trace := trace w @ fetch_events w (current_page v)\<rparr>"
          by (auto simp: ingest_loop_step)
        with run_of_0_uncaught [OF nb ne True] have "run_of w mp v 0 r v' w'"
          by simp
        then show ?thesis by (intro exI [of _ 0]) simp
      next
        case md: False
        show ?thesis
        proof (cases "length (fetched w (current_page v)) < PER_PAGE")
          case True
          with nb ne md Suc.prems have "r = Some ShortPage" "v' = next_vars v"
            "w' = after_page (current_page v) w"
            by (simp_all add: ingest_loop_step)
          with run_of_1_short [OF nb ne md True] have "run_of w mp v 1 r v' w'"
            by simp
          then show ?thesis by (intro exI [of _ 1]) simp
        next
          case full: False
          with nb ne md Suc.prems
          have "ingest_loop fuel mp (next_vars v) (after_page (current_page v) w) = (r, v', w')"
            by (simp add: ingest_loop_step)
          from Suc.IH [OF this] obtain n where "n \<le> fuel"
            and "run_of (after_page (current_page v) w) mp (next_vars v) n r v' w'" by blast
          with run_of_Suc [OF nb ne md full] show ?thesis
            by (intro exI [of _ "Suc n"]) simp
        qed
      qed
    qed
  qed
qed

lemma stored_pages_append [simp]: "stored_pages (xs @ ys) = stored_pages xs @ stored_pages ys"
  by (induction xs rule: stored_pages.induct) simp_all

lemma advanced_pages_append [simp]: "advanced_pages (xs @ ys) = advanced_pages xs @ advanced_pages ys"
  by (induction xs rule: advanced_pages.induct) simp_all

lemma fetch_events_char:
  "fetch_events w p =
     attempt_events p (takeWhile retryable (map (http w p) [0..<MAX_RETRIES_PER_PAGE]))
     @ (if dropWhile retryable (map (http w p) [0..<MAX_RETRIES_PER_PAGE]) = [] then [] else [HttpGet p])"
  unfolding fetch_events_def new_events_def fetch_page_def
  by (simp add: fetch_page_loop_char Let_def)

lemma attempt_events_no_writes [simp]:
  "stored_pages (attempt_events p rs) = []" "advanced_pages (attempt_events p rs) = []"
  by (induction rs) (simp_all add: attempt_events_def)

lemma fetch_events_no_writes [simp]:
  "stored_pages (fetch_events w p) = []" "advanced_pages (fetch_events w p) = []"
  by (simp_all add: fetch_events_char del: dropWhile_eq_Nil_conv)

lemma page_events_writes [simp]:
  "stored_pages (page_events w p) = [p]" "advanced_pages (page_events w p) = [p]"
  by (simp_all add: page_events_def)

lemma pages_events_writes [simp]:
  "stored_pages (concat (map (page_events w) ps)) = ps"
  "advanced_pages (concat (map (page_events w) ps)) = ps"
  by (induction ps) simp_all

lemma fold_store_other: "p \<notin> set ps \<Longrightarrow> fold (store_effect w) ps files p = files p"
  by (induction ps arbitrary: files) (auto simp: store_effect_def split: write_outcome.splits)

lemma fold_store_written:
  "p \<in> set ps \<Longrightarrow> page_write w p = Written \<Longrightarrow>
   fold (store_effect w) ps files p = Some (Dict (CoinsList (fetched w p)))"
proof (induction ps arbitrary: files)
  case Nil
  then show ?case by simp
next
  case (Cons q ps)
  show ?case
  proof (cases "p \<in> set ps")
    case True
    with Cons show ?thesis by simp
  next
    case False
    with Cons.prems have "q = p" by simp
    have "fold (store_effect w) ps (store_effect w p files) p = store_effect w p files p"
      by (rule fold_store_other [OF False])
    moreover have "store_effect w p files p = Some (Dict (CoinsList (fetched w p)))"
      using Cons.prems(2) by (simp add: store_effect_def)
    ultimately show ?thesis using \<open>q = p\<close> by simp
  qed
qed

lemma pages_from_snoc: "pages_from c (Suc n) = pages_from c n @ [c + int n]"
  by (simp add: pages_from_def)

lemma fold_progress_last:
  "0 < n \<Longrightarrow> state_write w (c + int n - 1) = Written \<Longrightarrow>
   fold (progress_effect w) (pages_from c n) s = StateDict (JsonInt (c + int n - 1))"
  by (cases n) (simp_all add: pages_from_snoc progress_effect_def)

lemma set_pages_from: "set (pages_from c n) = {p. c \<le> p \<and> p < c + int n}"
proof -
  have "\<And>p. c \<le> p \<Longrightarrow> p < c + int n \<Longrightarrow> p \<in> (\<lambda>i. c + int i) ` {0..<n}"
  proof -
    fix p assume "c \<le> p" "p < c + int n"
    then have "p = c + int (nat (p - c))" "nat (p - c) \<in> {0..<n}" by auto
    then show "p \<in> (\<lambda>i. c + int i) ` {0..<n}" by (rule image_eqI)
  qed
  then show ?thesis by (auto simp: pages_from_def)
qed

lemma run_new_events:
  "run_of w mp v n r v' w' \<Longrightarrow>
   new_events w w' = concat (map (page_events w) (pages_from (current_page v) n))
                     @ (if r = Some NoData \<or> r = Some (Uncaught OSError)
                        then fetch_events w (current_page v + int n) else [])"
  by (simp add: run_of_def new_events_def)

lemma fetch_coin_infos_run:
  assumes "fetch_coin_infos fuel mp sp w = (r, ret, w')"
  shows "\<exists>n\<le>fuel. \<exists>v'. ret = last_fetched_page v' \<and>
           run_of w mp \<lparr>fetched_pages = 0, last_fetched_page = 0, current_page = resolve_start sp w\<rparr>
             n r v' w'"
proof -
  obtain v' where "ingest_loop fuel mp
      \<lparr>fetched_pages = 0, last_fetched_page = 0, current_page = resolve_start sp w\<rparr> w = (r, v', w')"
    and "ret = last_fetched_page v'"
    using assms by (auto simp: fetch_coin_infos_def split: prod.splits)
  with ingest_loop_run [OF this(1)] show ?thesis by blast
qed

text \<open>
  A run of \<^verbatim>\<open>fetch_coin_infos\<close> that ends has completed some number \<open>n\<close> of
  pages, \<open>c, c + 1, \<dots>, c + n - 1\<close> from the start page \<open>c\<close>: for exactly these, in
  this order, it called \<^verbatim>\<open>save_page_data\<close> and \<^verbatim>\<open>save_state\<close>; none of them
  was fetched empty, for none did \<^verbatim>\<open>os.makedirs\<close> raise, and the budget was not
  reached before any of them. It ends in one of four ways: the three of the loop
  (\<open>ShortPage\<close>, \<open>BudgetReached\<close>, \<open>NoData\<close>), each with the stores and progress
  updates the specification lists, and \<open>Uncaught\<close>, when \<^verbatim>\<open>os.makedirs\<close> raises for
  the page \<open>c + n\<close> that was fetched with records: that page is neither stored nor is
  progress advanced to it.
\<close>

lemma run_ends_in_four_ways:
  fixes w :: "'c world"
  assumes run: "fetch_coin_infos fuel max_pages start_page w = (Some r, ret, w')"
  shows "\<exists>n. let c = resolve_start start_page w; evs = new_events w w'; completed = pages_from c n in
      stored_pages evs = completed \<and> advanced_pages evs = completed
    \<and> ret = (if n = 0 then 0 else c + int n - 1)
    \<and> (\<forall>i<n. fetched w (c + int i) \<noteq> [] \<and> \<not> makedirs_raises w (c + int i)
              \<and> \<not> budget_reached max_pages (int i))
    \<and> (\<forall>p \<in> set completed. page_write w p = Written
          \<longrightarrow> page_files w' p = Some (Dict (CoinsList (fetched w p))))
    \<and> (0 < n \<and> state_write w ret = Written \<longrightarrow> state_file w' = StateDict (JsonInt ret))
    \<and> (case r of
          ShortPage \<Rightarrow>
            0 < n \<and> length (fetched w ret) < PER_PAGE
            \<and> (\<forall>i. Suc i < n \<longrightarrow> PER_PAGE \<le> length (fetched w (c + int i)))
            \<and> (\<exists>before. evs = before @ [WritePage ret (page_write w ret),
                                          WriteState ret (state_write w ret), Sleep 1])
        | BudgetReached \<Rightarrow>
            budget_reached max_pages (int n)
            \<and> (\<forall>i<n. PER_PAGE \<le> length (fetched w (c + int i)))
        | NoData \<Rightarrow>
            fetched w (c + int n) = []
            \<and> (\<forall>i<n. PER_PAGE \<le> length (fetched w (c + int i)))
            \<and> c + int n \<notin> set (stored_pages evs) \<and> c + int n \<notin> set (advanced_pages evs)
            \<and> page_files w' (c + int n) = page_files w (c + int n)
            \<and> (n = 0 \<longrightarrow> state_file w' = state_file w)
        | Uncaught e \<Rightarrow>
            fetched w (c + int n) \<noteq> [] \<and> makedirs_raises w (c + int n)
            \<and> (\<forall>i<n. PER_PAGE \<le> length (fetched w (c + int i)))
            \<and> c + int n \<notin> set (stored_pages evs) \<and> c + int n \<notin> set (advanced_pages evs)
            \<and> page_files w' (c + int n) = page_files w (c + int n)
            \<and> (n = 0 \<longrightarrow> state_file w' = state_file w))"
proof -
  define c where "c = resolve_start start_page w"
  define v0 where "v0 = \<lparr>fetched_pages = 0, last_fetched_page = 0, current_page = c\<rparr>"
  from fetch_coin_infos_run [OF run] obtain n v'
    where ret: "ret = last_fetched_page v'" and ro: "run_of w max_pages v0 n (Some r) v' w'"
    unfolding c_def v0_def by blast
  let ?evs = "new_events w w'"
  let ?completed = "pages_from c n"
  have evs: "?evs = concat (map (page_events w) ?completed)
                    @ (if r = NoData \<or> r = Uncaught OSError then fetch_events w (c + int n) else [])"
    using run_new_events [OF ro] by (simp add: v0_def)
  have s1: "stored_pages ?evs = ?completed" and s2: "advanced_pages ?evs = ?completed"
    by (simp_all add: evs)
  have s3: "ret = (if n = 0 then 0 else c + int n - 1)"
    using ro by (simp add: run_of_def ret v0_def)
  have all: "\<forall>i<n. fetched w (c + int i) \<noteq> [] \<and> \<not> makedirs_raises w (c + int i)
                \<and> \<not> budget_reached max_pages (int i)
                \<and> (Suc i < n \<or> r \<noteq> ShortPage \<longrightarrow> PER_PAGE \<le> length (fetched w (c + int i)))"
    using ro by (simp add: run_of_def v0_def)
  have files: "page_files w' = fold (store_effect w) ?completed (page_files w)"
    and state: "state_file w' = fold (progress_effect w) ?completed (state_file w)"
    using ro by (simp_all add: run_of_def v0_def)
  have s5: "\<forall>p \<in> set ?completed. page_write w p = Written
          \<longrightarrow> page_files w' p = Some (Dict (CoinsList (fetched w p)))"
    by (simp add: files fold_store_written)
  have s6: "0 < n \<and> state_write w ret = Written \<longrightarrow> state_file w' = StateDict (JsonInt ret)"
    using fold_progress_last [of n w c "state_file w"] by (auto simp: state s3)
  have notin: "c + int n \<notin> set ?completed"
    by (simp add: set_pages_from)
  have s7: "(case r of
          ShortPage \<Rightarrow>
            0 < n \<and> length (fetched w ret) < PER_PAGE
            \<and> (\<forall>i. Suc i < n \<longrightarrow> PER_PAGE \<le> length (fetched w (c + int i)))
            \<and> (\<exists>before. ?evs = before @ [WritePage ret (page_write w ret),
                                          WriteState ret (state_write w ret), Sleep 1])
        | BudgetReached \<Rightarrow>
            budget_reached max_pages (int n)
            \<and> (\<forall>i<n. PER_PAGE \<le> length (fetched w (c + int i)))
        | NoData \<Rightarrow>
            fetched w (c + int n) = []
            \<and> (\<forall>i<n. PER_PAGE \<le> length (fetched w (c + int i)))
            \<and> c + int n \<notin> set (stored_pages ?evs) \<and> c + int n \<notin> set (advanced_pages ?evs)
            \<and> page_files w' (c + int n) = page_files w (c + int n)
            \<and> (n = 0 \<longrightarrow> state_file w' = state_file w)
        | Uncaught e \<Rightarrow>
            fetched w (c + int n) \<noteq> [] \<and> makedirs_raises w (c + int n)
            \<and> (\<forall>i<n. PER_PAGE \<le> length (fetched w (c + int i)))
            \<and> c + int n \<notin> set (stored_pages ?evs) \<and> c + int n \<notin> set (advanced_pages ?evs)
            \<and> page_files w' (c + int n) = page_files w (c + int n)
            \<and> (n = 0 \<longrightarrow> state_file w' = state_file w))"
  proof (cases r)
    case BudgetReached
    with ro all show ?thesis by (simp add: run_of_def v0_def)
  next
    case NoData
    with ro all notin show ?thesis
      by (simp add: run_of_def v0_def s1 s2 fold_store_other)
  next
    case (Uncaught e)
    with ro all notin show ?thesis
      by (cases e) (simp add: run_of_def v0_def s1 s2 fold_store_other)
  next
    case ShortPage
    with ro have pos: "0 < n" and short: "length (fetched w (c + int n - 1)) < PER_PAGE"
      by (simp_all add: run_of_def v0_def)
    from pos obtain k where k: "n = Suc k" by (cases n) simp_all
    have "?evs = concat (map (page_events w) (pages_from c k)) @ page_events w (c + int k)"
      using ShortPage by (simp add: evs k pages_from_snoc)
    then have "?evs = (concat (map (page_events w) (pages_from c k)) @ fetch_events w ret)
                 @ [WritePage ret (page_write w ret), WriteState ret (state_write w ret), Sleep 1]"
      by (simp add: page_events_def s3 k)
    then have "\<exists>before. ?evs = before @ [WritePage ret (page_write w ret),
                                          WriteState ret (state_write w ret), Sleep 1]"
      by blast
    with ShortPage pos short all show ?thesis by (simp add: s3)
  qed
  show ?thesis
    apply (rule exI [of _ n])
    unfolding Let_def c_def [symmetric]
    using s1 s2 s3 all s5 s6 s7 by simp
qed

lemmas run_defs = fetch_coin_infos_def resolve_start_def resume_page_def load_state_def fetch_page_def
  fetch_page_loop.simps save_page_data_def write_page_def save_state_def sleep_def emit_def
  PER_PAGE_def MAX_RETRIES_PER_PAGE_def sample_env_def one_short_page_def no_data_def new_events_def

text \<open>
  Claim C2 says that a run stops in exactly one of three cases. The code has a fourth:
  \<^verbatim>\<open>os.makedirs\<close> stands outside the \<^verbatim>\<open>try\<close> of \<^verbatim>\<open>save_page_data\<close>, so when
  it raises (\<^verbatim>\<open>coin_pages\<close> is a regular file, say) the exception leaves
  \<^verbatim>\<open>fetch_coin_infos\<close>, although the failure of the write two lines below is caught
  and logged. Here page 1 is fetched with two records and the directory cannot be made:
  the run ends with the exception, nothing stored, no progress written and no value
  returned.
\<close>

theorem makedirs_failure_ends_run:
  "fetch_coin_infos 1 None None no_directory
   = (Some (Uncaught OSError), 0, no_directory\<lparr>trace := [HttpGet 1]\<rparr>)"
  by (simp add: run_defs no_directory_def)

subsection \<open>Progress and unstored pages\<close>

text \<open>
  Claim C1 says that progress is not advanced to a page whose storage failed. The code
  advances it: \<^verbatim>\<open>save_page_data\<close> catches the exception of the failed write and
  returns nothing, and \<^verbatim>\<open>save_state\<close> is called unconditionally after it. Here the
  fetch of page 1 returns two records and the write of the page artifact fails: after the
  run no page artifact exists, and the progress artifact holds \<open>last_page = 1\<close>.
\<close>

theorem progress_advances_past_unstored_page:
  "fetch_coin_infos 1 None None (sample_env one_short_page (\<lambda>_. OpenFails) (\<lambda>_. Written) NoStateFile)
   = (Some ShortPage, 1,
      \<lparr>http = one_short_page, makedirs_raises = (\<lambda>_. False),
       page_write = (\<lambda>_. OpenFails), state_write = (\<lambda>_. Written),
       page_files = Map.empty, state_file = StateDict (JsonInt 1),
       trace = [HttpGet 1, WritePage 1 OpenFails, WriteState 1 Written, Sleep 1]\<rparr>)"
  by (simp add: run_defs)

subsection \<open>The start page\<close>

lemma ingest_loop_first_request:
  assumes nb: "\<not> budget_reached mp (fetched_pages v)"
    and run: "ingest_loop (Suc f) mp v w = (r, v', w')"
  shows "\<exists>evs. trace w' = trace w @ HttpGet (current_page v) # evs"
proof -
  note [simp del] = ingest_loop.simps
  obtain evs where fe: "fetch_events w (current_page v) = HttpGet (current_page v) # evs"
    using fetch_events_first by blast
  show ?thesis
  proof (cases "fetched w (current_page v) = []")
    case True
    with nb run fe show ?thesis by (auto simp: ingest_loop_step)
  next
    case ne: False
    show ?thesis
    proof (cases "makedirs_raises w (current_page v)")
      case True
      with nb ne run fe show ?thesis by (auto simp: ingest_loop_step)
    next
      case md: False
      show ?thesis
      proof (cases "length (fetched w (current_page v)) < PER_PAGE")
        case True
        with nb ne md run have "w' = after_page (current_page v) w"
          by (simp add: ingest_loop_step)
        with fe show ?thesis by (simp add: after_page_trace page_events_def)
      next
        case False
        with nb ne md run
        have "ingest_loop f mp (next_vars v) (after_page (current_page v) w) = (r, v', w')"
          by (simp add: ingest_loop_step)
        from ingest_loop_run [OF this] obtain n where
          "run_of (after_page (current_page v) w) mp (next_vars v) n r v' w'" by blast
        then obtain more where "trace w' = trace (after_page (current_page v) w) @ more"
          by (simp add: run_of_def)
        with fe show ?thesis by (simp add: after_page_trace page_events_def)
      qed
    qed
  qed
qed

lemma first_request_is_start_page:
  assumes run: "fetch_coin_infos fuel max_pages start_page w = (r, ret, w')"
  shows "case new_events w w' of
           [] \<Rightarrow> fuel = 0 \<or> budget_reached max_pages 0
         | e # _ \<Rightarrow> e = HttpGet (resolve_start start_page w)"
proof -
  let ?v0 = "\<lparr>fetched_pages = 0, last_fetched_page = 0, current_page = resolve_start start_page w\<rparr>"
  obtain v' where il: "ingest_loop fuel max_pages ?v0 w = (r, v', w')"
    using run by (auto simp: fetch_coin_infos_def split: prod.splits)
  show ?thesis
  proof (cases fuel)
    case 0
    with il show ?thesis by (simp add: new_events_def)
  next
    case (Suc f)
    show ?thesis
    proof (cases "budget_reached max_pages 0")
      case True
      with il Suc show ?thesis
        by (simp add: ingest_loop_step new_events_def del: ingest_loop.simps)
    next
      case False
      with ingest_loop_first_request [of max_pages ?v0 f w r v' w'] il Suc
      show ?thesis by (auto simp: new_events_def)
    qed
  qed
qed

text \<open>
  Claim C9, amended. An override greater than 0 is the start page, whatever the stored
  progress. Without an override, and also with an override that is 0 or negative, the
  start page is the stored \<open>last_page + 1\<close> when the stored value is at least 0, and 1
  when there is no usable progress artifact, no \<open>last_page\<close> in it, a null, or a negative
  value. The first request of a run is for the start page; a run makes no request only
  when its budget is reached before the first page.
\<close>

theorem start_page_resolution:
  fixes w :: "'c world"
  shows "(0 < s \<longrightarrow> resolve_start (Some s) w = s)
       \<and> (s \<le> 0 \<longrightarrow> resolve_start (Some s) w = resolve_start None w)
       \<and> (state_file w = StateDict (JsonInt n) \<and> 0 \<le> n \<longrightarrow> resolve_start None w = n + 1)
       \<and> (state_file w = StateDict (JsonInt n) \<and> n < 0 \<longrightarrow> resolve_start None w = 1)
       \<and> (state_file w \<in> {NoStateFile, BadStateFile, StateNotDict, StateDict KeyMissing, StateDict JsonNull}
            \<longrightarrow> resolve_start None w = 1)
       \<and> (fetch_coin_infos fuel max_pages start_page w = (r, ret, w')
            \<longrightarrow> (case new_events w w' of
                   [] \<Rightarrow> fuel = 0 \<or> budget_reached max_pages 0
                 | e # _ \<Rightarrow> e = HttpGet (resolve_start start_page w)))"
proof -
  have a: "0 < s \<longrightarrow> resolve_start (Some s) w = s"
    by (simp add: resolve_start_def resume_page_def)
  have b: "s \<le> 0 \<longrightarrow> resolve_start (Some s) w = resolve_start None w"
    by (simp add: resolve_start_def resume_page_def)
  have c: "state_file w = StateDict (JsonInt n) \<and> 0 \<le> n \<longrightarrow> resolve_start None w = n + 1"
    by (simp add: resolve_start_def resume_page_def load_state_def)
  have c': "state_file w = StateDict (JsonInt n) \<and> n < 0 \<longrightarrow> resolve_start None w = 1"
    by (simp add: resolve_start_def resume_page_def load_state_def)
  have d: "state_file w \<in> {NoStateFile, BadStateFile, StateNotDict, StateDict KeyMissing, StateDict JsonNull}
            \<longrightarrow> resolve_start None w = 1"
    by (auto simp: resolve_start_def resume_page_def load_state_def)
  have e: "case new_events w w' of
                   [] \<Rightarrow> fuel = 0 \<or> budget_reached max_pages 0
                 | e # _ \<Rightarrow> e = HttpGet (resolve_start start_page w)"
    if run: "fetch_coin_infos fuel max_pages start_page w = (r, ret, w')"
    using first_request_is_start_page [OF run] .
  from a b c c' d e show ?thesis by blast
qed

text \<open>
  Claim C9 as stated fails for the override 0: with \<open>last_page = 4\<close> stored, the run
  starts at page 5.
\<close>

theorem start_page_override_counterexample:
  "resolve_start (Some 0) resumed_world = 5
   \<and> resolve_start (Some 0) resumed_world \<noteq> 0
   \<and> fetch_coin_infos 1 None (Some 0) resumed_world
       = (Some NoData, 0, resumed_world\<lparr>trace := [HttpGet 5]\<rparr>)"
  by (simp add: run_defs resumed_world_def)

text \<open>The overrides 3 and 0 against the stored progress 4.\<close>

theorem start_page_resolution_witness:
  "(0::int) < 3 \<and> resolve_start (Some 3) resumed_world = 3
   \<and> (0::int) \<le> 0 \<and> resolve_start (Some 0) resumed_world = resolve_start None resumed_world
   \<and> state_file resumed_world = StateDict (JsonInt 4) \<and> resolve_start None resumed_world = 5
   \<and> fetch_coin_infos 1 None (Some 3) resumed_world
       = (Some NoData, 0, resumed_world\<lparr>trace := [HttpGet 3]\<rparr>)
   \<and> new_events resumed_world (resumed_world\<lparr>trace := [HttpGet 3]\<rparr>) = [HttpGet 3]"
proof -
  have run: "fetch_coin_infos 1 None (Some 3) resumed_world
       = (Some NoData, 0, resumed_world\<lparr>trace := [HttpGet 3]\<rparr>)"
    by (simp add: run_defs resumed_world_def)
  have st: "state_file resumed_world = StateDict (JsonInt 4)"
    by (simp add: resumed_world_def sample_env_def)
  have ev: "new_events resumed_world (resumed_world\<lparr>trace := [HttpGet 3]\<rparr>) = [HttpGet 3]"
    by (simp add: new_events_def resumed_world_def sample_env_def)
  from start_page_resolution [of 3 resumed_world 4 1 None "Some 3" "Some NoData" 0
      "resumed_world\<lparr>trace := [HttpGet 3]\<rparr>"]
    start_page_resolution [of 0 resumed_world 4 1 None "Some 3" "Some NoData" 0
      "resumed_world\<lparr>trace := [HttpGet 3]\<rparr>"] run st ev
  show ?thesis by simp
qed

subsection \<open>Resume after a restart\<close>

text \<open>
  Claim C3. Let a run return \<open>N \<ge> 1\<close> as its last page, the write of the progress
  artifact for \<open>N\<close> having succeeded, and let a second run without start override begin
  on the disk the first one left (the endpoint and the outcome of later writes may be
  anything). Then the progress artifact holds \<open>N\<close>, the second run starts at page
  \<open>N + 1\<close>, its first request is for that page, every page it stores is greater than
  \<open>N\<close>, and the artifact of page \<open>N\<close> is as the first run left it.
\<close>

theorem resume_after_restart:
  fixes w w2 :: "'c world"
  assumes run1: "fetch_coin_infos fuel1 max1 start1 w = (r1, N, w1)"
    and N: "1 \<le> N"
    and saved: "state_write w N = Written"
    and restart: "state_file w2 = state_file w1" "page_files w2 = page_files w1"
    and run2: "fetch_coin_infos fuel2 max2 None w2 = (r2, ret2, w2')"
  shows "state_file w1 = StateDict (JsonInt N)
       \<and> resolve_start None w2 = N + 1
       \<and> (case new_events w2 w2' of [] \<Rightarrow> True | e # _ \<Rightarrow> e = HttpGet (N + 1))
       \<and> N \<notin> set (stored_pages (new_events w2 w2'))
       \<and> (\<forall>p \<in> set (stored_pages (new_events w2 w2')). N < p)
       \<and> page_files w2' N = page_files w1 N"
proof -
  from fetch_coin_infos_run [OF run1] obtain n v1
    where ret: "N = last_fetched_page v1"
      and ro: "run_of w max1 \<lparr>fetched_pages = 0, last_fetched_page = 0,
                 current_page = resolve_start start1 w\<rparr> n r1 v1 w1"
    by blast
  let ?c = "resolve_start start1 w"
  from ro have lf: "N = (if n = 0 then 0 else ?c + int n - 1)"
    by (simp add: run_of_def ret)
  with N have pos: "0 < n" and Neq: "N = ?c + int n - 1"
    by (simp_all split: if_splits)
  from ro have "state_file w1 = fold (progress_effect w) (pages_from ?c n) (state_file w)"
    by (simp add: run_of_def)
  with fold_progress_last [OF pos, of w ?c "state_file w"] saved Neq
  have st1: "state_file w1 = StateDict (JsonInt N)" by simp
  with restart N have start2: "resolve_start None w2 = N + 1"
    by (simp add: resolve_start_def resume_page_def load_state_def)
  from fetch_coin_infos_run [OF run2] obtain n2 v2
    where ro2: "run_of w2 max2 \<lparr>fetched_pages = 0, last_fetched_page = 0,
                 current_page = N + 1\<rparr> n2 r2 v2 w2'"
    unfolding start2 by blast
  have ev2: "stored_pages (new_events w2 w2') = pages_from (N + 1) n2"
    by (simp add: run_new_events [OF ro2])
  have first: "case new_events w2 w2' of [] \<Rightarrow> True | e # _ \<Rightarrow> e = HttpGet (N + 1)"
    using first_request_is_start_page [OF run2] by (simp add: start2 split: list.splits)
  have later: "\<forall>p \<in> set (stored_pages (new_events w2 w2')). N < p"
    by (simp add: ev2 set_pages_from)
  then have notN: "N \<notin> set (stored_pages (new_events w2 w2'))" by blast
  from ro2 have "page_files w2' = fold (store_effect w2) (pages_from (N + 1) n2) (page_files w2)"
    by (simp add: run_of_def)
  then have keep: "page_files w2' N = page_files w1 N"
    by (simp add: fold_store_other set_pages_from restart)
  from st1 start2 first later notN keep show ?thesis by simp
qed

text \<open>A first run that ends with the short page 1, and the run after it.\<close>

theorem resume_after_restart_witness:
  "fetch_coin_infos 1 None None first_run_world = (Some ShortPage, 1, after_first_run)
   \<and> (1::int) \<le> 1
   \<and> state_write first_run_world 1 = Written
   \<and> fetch_coin_infos 1 None None after_first_run
       = (Some NoData, 0, after_first_run\<lparr>trace := trace after_first_run @ [HttpGet 2]\<rparr>)
   \<and> resolve_start None after_first_run = 1 + 1
   \<and> 1 \<notin> set (stored_pages (new_events after_first_run
                 (after_first_run\<lparr>trace := trace after_first_run @ [HttpGet 2]\<rparr>)))"
proof -
  have run1: "fetch_coin_infos 1 None None first_run_world = (Some ShortPage, 1, after_first_run)"
    by (simp add: run_defs first_run_world_def after_first_run_def)
  have N: "(1::int) \<le> 1" by simp
  have saved: "state_write first_run_world 1 = Written"
    by (simp add: first_run_world_def sample_env_def)
  have run2: "fetch_coin_infos 1 None None after_first_run
       = (Some NoData, 0, after_first_run\<lparr>trace := trace after_first_run @ [HttpGet 2]\<rparr>)"
    by (simp add: run_defs after_first_run_def)
  from resume_after_restart [OF run1 N saved refl refl run2] run1 saved run2
  show ?thesis by simp
qed

subsection \<open>Fuel\<close>

text \<open>
  The loop is left whenever a budget is set or some page is short, given fuel for that
  many iterations; and the result of a run that ended does not depend on the fuel.
\<close>

lemma ingest_loop_stops_within_budget:
  "nat (m - fetched_pages v) < fuel \<Longrightarrow> fst (ingest_loop fuel (Some m) v w) \<noteq> None"
proof (induction fuel arbitrary: v w)
  case 0
  then show ?case by simp
next
  case (Suc fuel)
  note [simp del] = ingest_loop.simps
  show ?case
  proof (cases "budget_reached (Some m) (fetched_pages v)")
    case True
    then show ?thesis by (simp add: ingest_loop_step)
  next
    case False
    then have "fetched_pages v < m" by (simp add: budget_reached_def)
    with Suc.prems have "nat (m - fetched_pages (next_vars v)) < fuel"
      by (simp add: next_vars_def)
    from Suc.IH [OF this] show ?thesis
      by (simp add: ingest_loop_step)
  qed
qed

lemma ingest_loop_stops_at_short_page:
  "length (fetched w (current_page v + int k)) < PER_PAGE \<Longrightarrow> k < fuel \<Longrightarrow>
   fst (ingest_loop fuel max_pages v w) \<noteq> None"
proof (induction fuel arbitrary: v w k)
  case 0
  then show ?case by simp
next
  case (Suc fuel)
  note [simp del] = ingest_loop.simps
  show ?case
  proof (cases "budget_reached max_pages (fetched_pages v) \<or> fetched w (current_page v) = []
                 \<or> makedirs_raises w (current_page v)
                 \<or> length (fetched w (current_page v)) < PER_PAGE")
    case True
    then show ?thesis by (auto simp: ingest_loop_step)
  next
    case False
    with Suc.prems(1) obtain j where k: "k = Suc j" by (cases k) auto
    let ?w1 = "after_page (current_page v) w"
    have "fetched ?w1 = fetched w"
      using after_page_env [of w "current_page v"] fetched_cong [of ?w1 w]
      by (simp add: same_env_def fun_eq_iff)
    with Suc.prems k
    have "length (fetched ?w1 (current_page (next_vars v) + int j)) < PER_PAGE" "j < fuel"
      by (simp_all add: next_vars_def add.assoc)
    from Suc.IH [OF this] False show ?thesis
      by (simp add: ingest_loop_step)
  qed
qed

lemma ingest_loop_more_fuel:
  "ingest_loop fuel max_pages v w = (Some r, v', w') \<Longrightarrow> fuel \<le> fuel' \<Longrightarrow>
   ingest_loop fuel' max_pages v w = (Some r, v', w')"
proof (induction fuel arbitrary: v w fuel')
  case 0
  then show ?case by simp
next
  case (Suc fuel)
  note [simp del] = ingest_loop.simps
  from Suc.prems(2) obtain f' where f': "fuel' = Suc f'" "fuel \<le> f'"
    by (cases fuel') simp_all
  show ?case
  proof (cases "budget_reached max_pages (fetched_pages v) \<or> fetched w (current_page v) = []
                 \<or> makedirs_raises w (current_page v)
                 \<or> length (fetched w (current_page v)) < PER_PAGE")
    case True
    with Suc.prems(1) show ?thesis unfolding f' by (auto simp: ingest_loop_step)
  next
    case False
    with Suc.prems(1)
    have "ingest_loop fuel max_pages (next_vars v) (after_page (current_page v) w) = (Some r, v', w')"
      by (simp add: ingest_loop_step)
    from Suc.IH [OF this f'(2)] False show ?thesis
      unfolding f' by (simp add: ingest_loop_step)
  qed
qed

lemma fetch_coin_infos_ends_within_budget:
  "nat m < fuel \<Longrightarrow> fst (fetch_coin_infos fuel (Some m) start_page w) \<noteq> None"
  using ingest_loop_stops_within_budget
    [of m "\<lparr>fetched_pages = 0, last_fetched_page = 0,
            current_page = resolve_start start_page w\<rparr>" fuel w]
  by (auto simp: fetch_coin_infos_def split: prod.splits)

lemma fetch_coin_infos_ends_at_short_page:
  "length (fetched w (resolve_start start_page w + int k)) < PER_PAGE \<Longrightarrow> k < fuel \<Longrightarrow>
   fst (fetch_coin_infos fuel max_pages start_page w) \<noteq> None"
  using ingest_loop_stops_at_short_page
    [of w "\<lparr>fetched_pages = 0, last_fetched_page = 0,
            current_page = resolve_start start_page w\<rparr>" k fuel max_pages]
  by (auto simp: fetch_coin_infos_def split: prod.splits)

section \<open>Properties of aggregation, filtering and scoring\<close>

subsection \<open>Score bounds\<close>

lemma calculate_score_sum:
  "calculate_score coin =
     liquidity_subscore coin + momentum_24h_subscore coin + momentum_7d_subscore coin
     + rank_subscore coin"
  by (simp add: calculate_score_def Let_def liquidity_subscore_def momentum_24h_subscore_def
      momentum_7d_subscore_def rank_subscore_def)

lemma or_zero_nonneg:
  "(case v of None \<Rightarrow> True | Some x \<Rightarrow> 0 \<le> x) \<Longrightarrow> 0 \<le> or_zero v"
  by (simp add: or_zero_def split: option.splits)

lemma liquidity_bounds:
  assumes "data_model_ok coin"
  shows "0 \<le> liquidity_subscore coin \<and> liquidity_subscore coin \<le> 4"
proof -
  from assms have tv: "0 \<le> or_zero (total_volume coin)"
    by (simp add: data_model_ok_def or_zero_nonneg)
  show ?thesis
  proof (cases "or_zero (market_cap coin) > 0")
    case True
    with tv have "0 \<le> or_zero (total_volume coin) / or_zero (market_cap coin) * 100 / 5"
      by simp
    then show ?thesis using True by (simp add: liquidity_subscore_def min_def)
  next
    case False
    then show ?thesis by (simp add: liquidity_subscore_def)
  qed
qed

lemma momentum_24h_bounds:
  "0 \<le> momentum_24h_subscore coin \<and> momentum_24h_subscore coin \<le> 3"
  by (simp add: momentum_24h_subscore_def min_def)

lemma momentum_7d_bounds:
  "0 \<le> momentum_7d_subscore coin \<and> momentum_7d_subscore coin \<le> 2"
  by (simp add: momentum_7d_subscore_def min_def)

lemma rank_bounds:
  assumes "data_model_ok coin"
  shows "0 \<le> rank_subscore coin \<and> rank_subscore coin \<le> 1"
proof -
  from assms have "1 \<le> or_999 (market_cap_rank coin)"
    by (simp add: data_model_ok_def or_999_def split: option.splits)
  then have "1 \<le> real_of_int (or_999 (market_cap_rank coin))" by simp
  then show ?thesis by (simp add: rank_subscore_def)
qed

text \<open>
  Claim C6. For a record within the data model (\<open>market_cap\<close> and \<open>total_volume\<close> at
  least 0 and \<open>market_cap_rank\<close> at least 1 when present; absent numbers count as 0 and
  an absent rank as 999), \<^verbatim>\<open>calculate_score\<close> is the sum of the four sub-scores, each
  within its cap (4, 3, 2 and 1), and lies between 0 and 10.
\<close>

theorem score_bounds:
  assumes "data_model_ok coin"
  shows "calculate_score coin =
           liquidity_subscore coin + momentum_24h_subscore coin + momentum_7d_subscore coin
           + rank_subscore coin
       \<and> 0 \<le> liquidity_subscore coin \<and> liquidity_subscore coin \<le> 4
       \<and> 0 \<le> momentum_24h_subscore coin \<and> momentum_24h_subscore coin \<le> 3
       \<and> 0 \<le> momentum_7d_subscore coin \<and> momentum_7d_subscore coin \<le> 2
       \<and> 0 \<le> rank_subscore coin \<and> rank_subscore coin \<le> 1
       \<and> 0 \<le> calculate_score coin \<and> calculate_score coin \<le> 10"
  using liquidity_bounds [OF assms] momentum_24h_bounds [of coin] momentum_7d_bounds [of coin]
    rank_bounds [OF assms]
  by (simp add: calculate_score_sum)

text \<open>The specification's scenario: sub-scores 0.48, 0.15, 0.1 and 0.51, score 1.24.\<close>

theorem score_bounds_witness:
  "data_model_ok scenario_coin
   \<and> calculate_score scenario_coin = 1.24
   \<and> liquidity_subscore scenario_coin = 0.48
   \<and> momentum_24h_subscore scenario_coin = 0.15
   \<and> momentum_7d_subscore scenario_coin = 0.1
   \<and> rank_subscore scenario_coin = 0.51
   \<and> 0 \<le> calculate_score scenario_coin \<and> calculate_score scenario_coin \<le> 10"
proof -
  have ok: "data_model_ok scenario_coin"
    by (simp add: data_model_ok_def scenario_coin_def)
  have "liquidity_subscore scenario_coin = 0.48" "momentum_24h_subscore scenario_coin = 0.15"
    "momentum_7d_subscore scenario_coin = 0.1" "rank_subscore scenario_coin = 0.51"
    by (simp_all add: liquidity_subscore_def momentum_24h_subscore_def momentum_7d_subscore_def
        rank_subscore_def scenario_coin_def or_zero_def or_999_def)
  with ok score_bounds [OF ok] show ?thesis by simp
qed

subsection \<open>The stablecoin and staking rule\<close>

lemma usdt_has_usd: "sublist ''USDT'' s \<Longrightarrow> sublist ''USD'' s"
proof -
  assume "sublist ''USDT'' s"
  then obtain ps ss where "s = ps @ ''USDT'' @ ss" by (auto simp: sublist_def)
  then have "s = ps @ ''USD'' @ (''T'' @ ss)" by simp
  then show ?thesis unfolding sublist_def by blast
qed

text \<open>
  Claim C8. For a record that no blacklist keyword matches, \<^verbatim>\<open>is_excellent_coin\<close>
  rejects with the USD/USDT/STAKED reason if and only if the uppercased name or the
  uppercased symbol contains \<^verbatim>\<open>USD\<close>, \<^verbatim>\<open>USDT\<close> or \<^verbatim>\<open>STAKED\<close>. (The code does
  not test the symbol for \<^verbatim>\<open>USDT\<close>; a string that contains it contains \<^verbatim>\<open>USD\<close>.)
  The second test for \<^verbatim>\<open>STAKED\<close> (line 212) never rejects.
\<close>

theorem usd_or_staked_rule:
  assumes "find (\<lambda>kw. kw = upper (or_empty (name coin)) \<or> upper (or_empty (symbol coin)) = kw)
             blacklist_keywords = None"
  shows "(is_excellent_coin fromisoformat blacklist_keywords coin = Inr (False, Some UsdOrStaked))
         = (sublist ''USD'' (upper (or_empty (name coin)))
            \<or> sublist ''USDT'' (upper (or_empty (name coin)))
            \<or> sublist ''STAKED'' (upper (or_empty (name coin)))
            \<or> sublist ''USD'' (upper (or_empty (symbol coin)))
            \<or> sublist ''USDT'' (upper (or_empty (symbol coin)))
            \<or> sublist ''STAKED'' (upper (or_empty (symbol coin))))
       \<and> is_excellent_coin fromisoformat blacklist_keywords coin \<noteq> Inr (False, Some Staked)"
proof -
  let ?nm = "upper (or_empty (name coin))" and ?sy = "upper (or_empty (symbol coin))"
  let ?hit = "sublist ''USD'' ?nm \<or> sublist ''USD'' ?sy \<or> sublist ''USDT'' ?nm
                \<or> sublist ''STAKED'' ?nm \<or> sublist ''STAKED'' ?sy"
  have eq: "?hit = (sublist ''USD'' ?nm \<or> sublist ''USDT'' ?nm \<or> sublist ''STAKED'' ?nm
            \<or> sublist ''USD'' ?sy \<or> sublist ''USDT'' ?sy \<or> sublist ''STAKED'' ?sy)"
    using usdt_has_usd [of ?sy] by blast
  show ?thesis
  proof (cases ?hit)
    case True
    then have "is_excellent_coin fromisoformat blacklist_keywords coin = Inr (False, Some UsdOrStaked)"
      using assms by (simp add: is_excellent_coin_def Let_def)
    with True eq show ?thesis by simp
  next
    case False
    then have "is_excellent_coin fromisoformat blacklist_keywords coin \<noteq> Inr (False, Some UsdOrStaked)"
      "is_excellent_coin fromisoformat blacklist_keywords coin \<noteq> Inr (False, Some Staked)"
      using assms
      by (auto simp: is_excellent_coin_def Let_def split: sum.splits bool.splits option.splits)
    with False eq show ?thesis by simp
  qed
qed

lemma upper_usdt: "upper ''usdt'' = ''USDT''" "upper ''Tether'' = ''TETHER''"
  by (simp_all add: upper_def upper_char_def)

text \<open>A record named Tether with symbol usdt, against a blacklist that misses it.\<close>

theorem usd_or_staked_rule_witness:
  "find (\<lambda>kw. kw = upper (or_empty (name usd_coin)) \<or> upper (or_empty (symbol usd_coin)) = kw)
     [''LUNA'', ''FTT''] = None
   \<and> is_excellent_coin fromisoformat_on_samples [''LUNA'', ''FTT''] usd_coin
       = Inr (False, Some UsdOrStaked)
   \<and> sublist ''USDT'' (upper (or_empty (symbol usd_coin)))"
proof -
  have nm: "upper (or_empty (name usd_coin)) = ''TETHER''"
    and sy: "upper (or_empty (symbol usd_coin)) = ''USDT''"
    by (simp_all add: usd_coin_def or_empty_def upper_usdt)
  have bl: "find (\<lambda>kw. kw = upper (or_empty (name usd_coin)) \<or> upper (or_empty (symbol usd_coin)) = kw)
     [''LUNA'', ''FTT''] = None"
    by (simp add: nm sy)
  have "sublist ''USDT'' (upper (or_empty (symbol usd_coin)))"
    by (simp add: sy)
  with bl usd_or_staked_rule [OF bl, of fromisoformat_on_samples] show ?thesis
    by simp
qed

subsection \<open>The outcome of the filter\<close>

text \<open>
  Claim C5 says that the filter produces an outcome for every record. For the record of
  the specification's first scenario, whose \<^verbatim>\<open>ath_date\<close> is \<^verbatim>\<open>2023-06-01\<close>, the
  code raises: the date parses to a naive \<^verbatim>\<open>datetime\<close>, its comparison with the
  aware cutoff raises \<^verbatim>\<open>TypeError\<close>, and the \<^verbatim>\<open>except\<close> clause catches only
  \<^verbatim>\<open>ValueError\<close> and \<^verbatim>\<open>AttributeError\<close>.
\<close>

theorem naive_ath_date_raises:
  "is_excellent_coin fromisoformat_on_samples [] scenario_coin = Inl TypeError"
  by (simp add: is_excellent_coin_def stale_ath_def Let_def scenario_coin_def or_zero_def
      or_empty_def upper_def replace_Z_def fromisoformat_on_samples_def cutoff_date_def
      MARKET_CAP_MAX_def MARKET_CAP_MIN_def sublist_code)

text \<open>
  For the records of the data model (the name and the symbol are strings when present),
  the filter is otherwise the first failing rule of the eight, in their order, and a
  record that fails one of the first six is rejected without the ATH block being
  evaluated. The \<^verbatim>\<open>TypeError\<close> is raised exactly for the records that pass the first
  six rules and whose \<^verbatim>\<open>ath_date\<close> parses to a naive \<^verbatim>\<open>datetime\<close>.
\<close>

lemma find_blacklist:
  "find fst (map (\<lambda>kw. (kw = nm \<or> kw = sy, Blacklisted kw)) kws @ rest) =
     (case find (\<lambda>kw. kw = nm \<or> sy = kw) kws of
        Some kw \<Rightarrow> Some (True, Blacklisted kw)
      | None \<Rightarrow> find fst rest)"
  by (induction kws) auto

lemma is_excellent_coin_first_failing:
  "is_excellent_coin fromisoformat blacklist_keywords coin =
     (case first_failing (rules_1_to_6 blacklist_keywords coin) of
        Some r \<Rightarrow> Inr (False, Some r)
      | None \<Rightarrow>
          (case stale_ath fromisoformat coin of
             Inl e \<Rightarrow> Inl e
           | Inr stale \<Rightarrow>
               (case first_failing (rules_7_8 stale coin) of
                  Some r \<Rightarrow> Inr (False, Some r)
                | None \<Rightarrow> Inr (True, None))))"
proof -
  let ?nm = "upper (or_empty (name coin))" and ?sy = "upper (or_empty (symbol coin))"
  have usd: "(sublist ''USD'' ?nm \<or> sublist ''USD'' ?sy \<or> sublist ''USDT'' ?nm
                \<or> sublist ''STAKED'' ?nm \<or> sublist ''STAKED'' ?sy)
           = (sublist ''USD'' ?nm \<or> sublist ''USDT'' ?nm \<or> sublist ''STAKED'' ?nm
            \<or> sublist ''USD'' ?sy \<or> sublist ''USDT'' ?sy \<or> sublist ''STAKED'' ?sy)"
    using usdt_has_usd [of ?sy] by blast
  have floor: "or_zero (market_cap coin) \<le> 0 \<Longrightarrow> or_zero (market_cap coin) < MARKET_CAP_MIN"
    by (simp add: MARKET_CAP_MIN_def)
  show ?thesis
  proof (cases "find (\<lambda>kw. kw = ?nm \<or> ?sy = kw) blacklist_keywords")
    case (Some kw)
    then show ?thesis
      by (simp add: is_excellent_coin_def first_failing_def rules_1_to_6_def Let_def find_blacklist)
  next
    case None
    show ?thesis
      unfolding is_excellent_coin_def first_failing_def rules_1_to_6_def rules_7_8_def Let_def
        find_blacklist None usd
      using floor
      by (auto split: sum.splits bool.splits option.splits)
  qed
qed

lemma is_excellent_coin_raises_iff:
  "(is_excellent_coin fromisoformat blacklist_keywords coin = Inl TypeError)
   = (first_failing (rules_1_to_6 blacklist_keywords coin) = None
      \<and> (\<exists>s t. ath_date coin = Some s \<and> s \<noteq> [] \<and> fromisoformat (replace_Z s) = Some (Naive t)))"
proof -
  have "(stale_ath fromisoformat coin = Inl TypeError)
        = (\<exists>s t. ath_date coin = Some s \<and> s \<noteq> [] \<and> fromisoformat (replace_Z s) = Some (Naive t))"
  proof (cases "ath_date coin")
    case None
    then show ?thesis by (simp add: stale_ath_def)
  next
    case (Some s)
    show ?thesis
    proof (cases "fromisoformat (replace_Z s)")
      case None
      with Some show ?thesis by (simp add: stale_ath_def)
    next
      case (Some d)
      with \<open>ath_date coin = Some s\<close> show ?thesis
        by (cases d) (simp_all add: stale_ath_def cutoff_date_def)
    qed
  qed
  then show ?thesis
    unfolding is_excellent_coin_first_failing
    by (auto split: option.splits sum.splits)
qed

subsection \<open>Ranking\<close>

lemma filter_loop_accepted:
  "filter_loop fromisoformat blacklist_keywords coins acc rej = Inr (a, r) \<Longrightarrow>
   a = acc @ aggregation_order fromisoformat blacklist_keywords coins"
proof (induction coins arbitrary: acc rej)
  case Nil
  then show ?case by (simp add: aggregation_order_def)
next
  case (Cons c coins)
  show ?case
  proof (cases "is_excellent_coin fromisoformat blacklist_keywords c")
    case (Inl e)
    with Cons.prems show ?thesis by simp
  next
    case (Inr res)
    obtain ok why where res: "res = (ok, why)" by (cases res)
    show ?thesis
    proof (cases ok)
      case True
      with Cons.prems Inr res
      have "filter_loop fromisoformat blacklist_keywords coins (acc @ [scored c]) rej = Inr (a, r)"
        by (simp add: scored_def)
      from Cons.IH [OF this] True Inr res show ?thesis
        by (simp add: aggregation_order_def accepts_def)
    next
      case False
      with Cons.prems Inr res obtain rej' where
        "filter_loop fromisoformat blacklist_keywords coins acc rej' = Inr (a, r)"
        by simp
      from Cons.IH [OF this] False Inr res show ?thesis
        by (simp add: aggregation_order_def accepts_def)
    qed
  qed
qed

lemma filter_coins_accepted:
  assumes "filter_coins int_of_str fromisoformat blacklist_keywords limit fs = (Inr (accepted, rejected), fs')"
  shows "accepted = sort_key (\<lambda>x. - score_key x)
           (aggregation_order fromisoformat blacklist_keywords (fst (get_all_coins int_of_str limit fs)))"
proof -
  obtain all_coins fs1 where g: "get_all_coins int_of_str limit fs = (all_coins, fs1)"
    by (cases "get_all_coins int_of_str limit fs")
  show ?thesis
  proof (cases "all_coins = []")
    case True
    with assms g show ?thesis by (simp add: filter_coins_def aggregation_order_def)
  next
    case False
    with assms g obtain a r where
      "filter_loop fromisoformat blacklist_keywords all_coins [] [] = Inr (a, r)"
      and "accepted = sort_key (\<lambda>x. - score_key x) a"
      by (auto simp: filter_coins_def split: sum.splits)
    with filter_loop_accepted [OF this(1)] g show ?thesis by simp
  qed
qed

lemma get_all_coins_cached:
  "cache_file fs = Some (Dict (CoinsList (c # cs))) \<Longrightarrow>
   get_all_coins int_of_str limit fs = (py_take limit (c # cs), fs)"
  by (simp add: get_all_coins_def)

text \<open>
  Claim C7. The accepted list \<^verbatim>\<open>filter_coins\<close> returns is the accepted records in
  aggregation order, sorted by the stable sort into descending order of the score: it is
  descending, and the records of any one score stand in their aggregation order. A second
  run that finds the same non-empty cache returns the same accepted and rejected lists,
  whatever the page store holds and however its cache write would end.
\<close>

theorem ranking_deterministic_and_stable:
  assumes run: "filter_coins int_of_str fromisoformat blacklist_keywords limit fs
                  = (Inr (accepted, rejected), fs')"
  shows "(let in_order = aggregation_order fromisoformat blacklist_keywords
                           (fst (get_all_coins int_of_str limit fs))
          in accepted = sort_key (\<lambda>x. - score_key x) in_order
             \<and> sorted_wrt (\<lambda>x y. score_key y \<le> score_key x) accepted
             \<and> (\<forall>k. filter (\<lambda>x. score_key x = k) accepted = filter (\<lambda>x. score_key x = k) in_order))
       \<and> (cache_file fs = Some (Dict (CoinsList (c # cs))) \<and> cache_file fs2 = cache_file fs
            \<longrightarrow> fst (filter_coins int_of_str2 fromisoformat blacklist_keywords limit fs2)
                 = Inr (accepted, rejected))"
proof -
  let ?in_order = "aggregation_order fromisoformat blacklist_keywords
                           (fst (get_all_coins int_of_str limit fs))"
  have eq: "accepted = sort_key (\<lambda>x. - score_key x) ?in_order"
    by (rule filter_coins_accepted [OF run])
  have "sorted (map (\<lambda>x. - score_key x) accepted)"
    unfolding eq by simp
  then have srt: "sorted_wrt (\<lambda>x y. score_key y \<le> score_key x) accepted"
    by (simp add: sorted_map)
  have stb: "\<forall>k. filter (\<lambda>x. score_key x = k) accepted = filter (\<lambda>x. score_key x = k) ?in_order"
  proof
    fix k
    have "filter (\<lambda>x. - score_key x = - k) (sort_key (\<lambda>x. - score_key x) ?in_order)
          = filter (\<lambda>x. - score_key x = - k) ?in_order"
      by (rule sort_key_stable)
    then show "filter (\<lambda>x. score_key x = k) accepted = filter (\<lambda>x. score_key x = k) ?in_order"
      by (simp add: eq)
  qed
  have det: "fst (filter_coins int_of_str2 fromisoformat blacklist_keywords limit fs2)
                 = Inr (accepted, rejected)"
    if "cache_file fs = Some (Dict (CoinsList (c # cs))) \<and> cache_file fs2 = cache_file fs"
  proof -
    from that have g1: "get_all_coins int_of_str limit fs = (py_take limit (c # cs), fs)"
      and g2: "get_all_coins int_of_str2 limit fs2 = (py_take limit (c # cs), fs2)"
      by (simp_all add: get_all_coins_cached)
    from run g1 have "fst (filter_coins int_of_str fromisoformat blacklist_keywords limit fs)
                       = Inr (accepted, rejected)" by simp
    then show ?thesis
      unfolding filter_coins_def g1 g2
      by (auto split: if_splits sum.splits)
  qed
  from eq srt stb det show ?thesis by (simp add: Let_def)
qed

lemma plain_coin_accepted:
  "is_excellent_coin fromisoformat_on_samples [] (plain_coin ''aaa'' 100000000) = Inr (True, None)"
  "is_excellent_coin fromisoformat_on_samples [] (plain_coin ''bbb'' 100000000) = Inr (True, None)"
  "is_excellent_coin fromisoformat_on_samples [] (plain_coin ''ccc'' 200000000) = Inr (True, None)"
  by (simp_all add: is_excellent_coin_def stale_ath_def Let_def plain_coin_def or_zero_def
      or_empty_def upper_def upper_char_def MARKET_CAP_MAX_def MARKET_CAP_MIN_def sublist_code)

lemma plain_coin_score:
  "calculate_score (plain_coin nm 100000000) = 0.8"
  "calculate_score (plain_coin nm 200000000) = 1.6"
  by (simp_all add: calculate_score_def Let_def plain_coin_def or_zero_def or_999_def)

text \<open>Three cached records, two of them with the same score.\<close>

theorem ranking_deterministic_and_stable_witness:
  "filter_coins (\<lambda>_. None) fromisoformat_on_samples [] 10 cached_coins
     = (Inr ([scored (plain_coin ''ccc'' 200000000), scored (plain_coin ''aaa'' 100000000),
              scored (plain_coin ''bbb'' 100000000)], []), cached_coins)
   \<and> sorted_wrt (\<lambda>x y. score_key y \<le> score_key x)
        [scored (plain_coin ''ccc'' 200000000), scored (plain_coin ''aaa'' 100000000),
         scored (plain_coin ''bbb'' 100000000)]
   \<and> filter (\<lambda>x. score_key x = 0.8)
        [scored (plain_coin ''ccc'' 200000000), scored (plain_coin ''aaa'' 100000000),
         scored (plain_coin ''bbb'' 100000000)]
      = [scored (plain_coin ''aaa'' 100000000), scored (plain_coin ''bbb'' 100000000)]
   \<and> cache_file cached_coins = Some (Dict (CoinsList
        [plain_coin ''aaa'' 100000000, plain_coin ''bbb'' 100000000, plain_coin ''ccc'' 200000000]))
   \<and> fst (filter_coins (\<lambda>_. Some 1) fromisoformat_on_samples [] 10
            (cached_coins\<lparr>pages_dir := Some [], cache_write := OpenFails\<rparr>))
      = Inr ([scored (plain_coin ''ccc'' 200000000), scored (plain_coin ''aaa'' 100000000),
              scored (plain_coin ''bbb'' 100000000)], [])"
proof -
  let ?acc = "[scored (plain_coin ''ccc'' 200000000), scored (plain_coin ''aaa'' 100000000),
              scored (plain_coin ''bbb'' 100000000)]"
  have keys: "score_key (scored (plain_coin ''aaa'' 100000000)) = 0.8"
    "score_key (scored (plain_coin ''bbb'' 100000000)) = 0.8"
    "score_key (scored (plain_coin ''ccc'' 200000000)) = 1.6"
    by (simp_all add: score_key_def scored_def plain_coin_score)
  have run: "filter_coins (\<lambda>_. None) fromisoformat_on_samples [] 10 cached_coins
     = (Inr (?acc, []), cached_coins)"
    by (simp add: filter_coins_def get_all_coins_def cached_coins_def py_take_def
        plain_coin_accepted scored_def [symmetric] keys)
  have cache: "cache_file cached_coins = Some (Dict (CoinsList
        [plain_coin ''aaa'' 100000000, plain_coin ''bbb'' 100000000, plain_coin ''ccc'' 200000000]))"
    by (simp add: cached_coins_def)
  have same: "cache_file (cached_coins\<lparr>pages_dir := Some [], cache_write := OpenFails\<rparr>)
                = cache_file cached_coins" by simp
  have flt: "filter (\<lambda>x. score_key x = 0.8) ?acc
      = [scored (plain_coin ''aaa'' 100000000), scored (plain_coin ''bbb'' 100000000)]"
    by (simp add: keys)
  have srt: "sorted_wrt (\<lambda>x y. score_key y \<le> score_key x) ?acc"
    by (simp add: keys)
  have "cache_file cached_coins = Some (Dict (CoinsList
          (plain_coin ''aaa'' 100000000 # [plain_coin ''bbb'' 100000000, plain_coin ''ccc'' 200000000])))
        \<and> cache_file (cached_coins\<lparr>pages_dir := Some [], cache_write := OpenFails\<rparr>)
            = cache_file cached_coins
        \<longrightarrow> fst (filter_coins (\<lambda>_. Some 1) fromisoformat_on_samples [] 10
                  (cached_coins\<lparr>pages_dir := Some [], cache_write := OpenFails\<rparr>))
            = Inr (?acc, [])"
    using ranking_deterministic_and_stable [OF run,
      of "plain_coin ''aaa'' 100000000"
         "[plain_coin ''bbb'' 100000000, plain_coin ''ccc'' 200000000]"
         "cached_coins\<lparr>pages_dir := Some [], cache_write := OpenFails\<rparr>" "\<lambda>_. Some 1"]
    by (rule conjunct2)
  with cache same have det: "fst (filter_coins (\<lambda>_. Some 1) fromisoformat_on_samples [] 10
                  (cached_coins\<lparr>pages_dir := Some [], cache_write := OpenFails\<rparr>))
            = Inr (?acc, [])"
    by blast
  from run srt flt cache det show ?thesis by blast
qed

subsection \<open>The aggregate cache\<close>

lemma load_loop_take:
  "take (nat limit) (load_loop limit files coins)
   = take (nat limit) (coins @ concat (map coins_of files))"
proof (induction files arbitrary: coins)
  case Nil
  then show ?case by simp
next
  case (Cons f files)
  obtain n pf where f: "f = (n, pf)" by (cases f)
  show ?case
  proof (cases "int (length coins) \<ge> limit")
    case True
    then have "nat limit \<le> length coins" by simp
    with True show ?thesis by (simp add: f)
  next
    case False
    show ?thesis
    proof (cases pf)
      case BadJson
      with False Cons.IH [of coins] show ?thesis by (simp add: f)
    next
      case NonDict
      with False Cons.IH [of coins] show ?thesis by (simp add: f)
    next
      case (Dict e)
      show ?thesis
      proof (cases e)
        case CoinsMissing
        with False Dict Cons.IH [of coins] show ?thesis by (simp add: f)
      next
        case CoinsNotList
        with False Dict Cons.IH [of coins] show ?thesis by (simp add: f)
      next
        case (CoinsList page_coins)
        with False Dict Cons.IH [of "coins @ page_coins"] show ?thesis by (simp add: f)
      qed
    qed
  qed
qed

lemma load_loop_nonpositive: "limit \<le> 0 \<Longrightarrow> load_loop limit files [] = []"
  by (cases files) auto

lemma py_take_load_loop:
  "py_take limit (load_loop limit files []) = take (nat limit) (concat (map coins_of files))"
proof (cases "limit \<ge> 0")
  case True
  then show ?thesis using load_loop_take [of limit files "[]"] by (simp add: py_take_def)
next
  case False
  then show ?thesis by (simp add: load_loop_nonpositive py_take_def)
qed

lemma load_coins_from_local_pages_take:
  "load_coins_from_local_pages int_of_str limit fs = take (nat limit) (pages_concat int_of_str fs)"
  by (simp add: load_coins_from_local_pages_def pages_concat_def py_take_load_loop Let_def
      split: option.splits)

lemma py_take_prefix: "prefix (py_take limit xs) xs"
  by (simp add: py_take_def take_is_prefix)

lemma py_take_length:
  "length (py_take limit xs) = (if 0 \<le> limit then min (nat limit) (length xs)
                                else length xs - nat (- limit))"
  by (simp add: py_take_def min.commute)

lemma py_take_all: "int (length xs) \<le> limit \<Longrightarrow> py_take limit xs = xs"
  by (simp add: py_take_def)

lemma get_all_coins_rebuild:
  assumes "cache_file fs = None"
  shows "get_all_coins int_of_str L fs =
           (let coins = take (nat L) (pages_concat int_of_str fs)
            in (coins,
                if coins = [] then fs
                else (case cache_write fs of
                        Written \<Rightarrow> fs\<lparr>cache_file := Some (Dict (CoinsList coins))\<rparr>
                      | OpenFails \<Rightarrow> fs
                      | DumpFails \<Rightarrow> fs\<lparr>cache_file := Some BadJson\<rparr>)))"
proof -
  let ?coins = "take (nat L) (pages_concat int_of_str fs)"
  have "?coins \<noteq> [] \<Longrightarrow> py_take L ?coins = ?coins"
    by (rule py_take_all) (cases "L \<ge> 0"; simp)
  then show ?thesis
    using assms
    by (simp add: get_all_coins_def load_coins_from_local_pages_take Let_def
        split: write_outcome.splits)
qed

lemma two_pages_rebuild:
  "get_all_coins int_of_str_on_samples 3 two_pages = ([1, 2, 3], two_pages_cached)"
proof -
  have pn: "page_num_of int_of_str_on_samples ''page_2.json'' = Some 2"
    "page_num_of int_of_str_on_samples ''notes.txt'' = None"
    "page_num_of int_of_str_on_samples ''page_1.json'' = Some 1"
    by (simp_all add: page_num_of_def int_of_str_on_samples_def suffix_to_prefix)
  show ?thesis
    by (simp add: get_all_coins_def load_coins_from_local_pages_def page_files_of_def
        List.map_filter_simps pn two_pages_def two_pages_cached_def py_take_def Let_def)
qed

lemma two_pages_concat: "pages_concat int_of_str_on_samples two_pages = [1, 2, 3, 4, 5]"
proof -
  have pn: "page_num_of int_of_str_on_samples ''page_2.json'' = Some 2"
    "page_num_of int_of_str_on_samples ''notes.txt'' = None"
    "page_num_of int_of_str_on_samples ''page_1.json'' = Some 1"
    by (simp_all add: page_num_of_def int_of_str_on_samples_def suffix_to_prefix)
  show ?thesis
    by (simp add: pages_concat_def page_files_of_def List.map_filter_simps pn two_pages_def)
qed

text \<open>
  Claim C10. Without a cache, \<^verbatim>\<open>get_all_coins(L)\<close> returns the first \<open>L\<close>
  records of the page-number-ordered concatenation of the page store. When these are not
  empty and the write succeeds, they are the cache it persists: not empty and at most
  \<open>L\<close> records. Every later call that finds this cache returns a prefix of the cached
  list, whatever the page store holds by then; for a limit \<open>L'\<close> (a number of records,
  so \<open>L' \<ge> 0\<close>) it is the first \<open>L'\<close> cached records, hence at most \<open>min L L'\<close>.
\<close>

theorem aggregate_cache_limit:
  assumes nocache: "cache_file fs = None"
    and rebuild: "get_all_coins int_of_str L fs = (coins, fs')"
  shows "coins = take (nat L) (pages_concat int_of_str fs)
       \<and> cache_file fs' =
           (if coins = [] then None
            else (case cache_write fs of
                    Written \<Rightarrow> Some (Dict (CoinsList coins))
                  | OpenFails \<Rightarrow> None
                  | DumpFails \<Rightarrow> Some BadJson))
       \<and> (cache_file fs' = Some (Dict (CoinsList cached))
            \<longrightarrow> cached = take (nat L) (pages_concat int_of_str fs) \<and> cached \<noteq> []
                \<and> int (length cached) \<le> L)
       \<and> (cache_file fs' = Some (Dict (CoinsList cached)) \<and> cache_file fs2 = cache_file fs'
            \<longrightarrow> fst (get_all_coins int_of_str2 L' fs2) = py_take L' cached
                \<and> prefix (fst (get_all_coins int_of_str2 L' fs2)) cached
                \<and> (0 \<le> L' \<longrightarrow> int (length (fst (get_all_coins int_of_str2 L' fs2)))
                                   = min L' (int (length cached))
                               \<and> int (length (fst (get_all_coins int_of_str2 L' fs2))) \<le> min L L'))"
proof -
  let ?all = "pages_concat int_of_str fs"
  from rebuild have coins: "coins = take (nat L) ?all"
    and fs': "fs' = (if coins = [] then fs
                else (case cache_write fs of
                        Written \<Rightarrow> fs\<lparr>cache_file := Some (Dict (CoinsList coins))\<rparr>
                      | OpenFails \<Rightarrow> fs
                      | DumpFails \<Rightarrow> fs\<lparr>cache_file := Some BadJson\<rparr>))"
    unfolding get_all_coins_rebuild [OF nocache] by (auto simp: Let_def)
  have cache: "cache_file fs' =
           (if coins = [] then None
            else (case cache_write fs of
                    Written \<Rightarrow> Some (Dict (CoinsList coins))
                  | OpenFails \<Rightarrow> None
                  | DumpFails \<Rightarrow> Some BadJson))"
    unfolding fs' using nocache by (simp split: write_outcome.splits)
  have persisted: "cached = coins \<and> cached \<noteq> []"
    if "cache_file fs' = Some (Dict (CoinsList cached))"
    using that unfolding cache by (auto split: if_splits write_outcome.splits)
  have bound: "cached = take (nat L) ?all \<and> cached \<noteq> [] \<and> int (length cached) \<le> L"
    if c: "cache_file fs' = Some (Dict (CoinsList cached))"
  proof -
    from persisted [OF c] have "cached = coins" and ne: "cached \<noteq> []"
      by blast+
    with coins have eq: "cached = take (nat L) ?all" by (simp only:)
    from eq ne have "0 < L" by (cases "0 < L") simp_all
    with eq have "int (length cached) \<le> L" by simp
    with eq ne show ?thesis by simp
  qed
  have later: "fst (get_all_coins int_of_str2 L' fs2) = py_take L' cached
                \<and> prefix (fst (get_all_coins int_of_str2 L' fs2)) cached
                \<and> (0 \<le> L' \<longrightarrow> int (length (fst (get_all_coins int_of_str2 L' fs2)))
                                   = min L' (int (length cached))
                               \<and> int (length (fst (get_all_coins int_of_str2 L' fs2))) \<le> min L L')"
    if c: "cache_file fs' = Some (Dict (CoinsList cached)) \<and> cache_file fs2 = cache_file fs'"
  proof -
    from c have c1: "cache_file fs' = Some (Dict (CoinsList cached))" by blast
    from bound [OF c1] have ne: "cached \<noteq> []" and len: "int (length cached) \<le> L"
      by blast+
    from ne obtain x xs where "cached = x # xs" by (cases cached) simp_all
    with c have hit: "fst (get_all_coins int_of_str2 L' fs2) = py_take L' cached"
      by (simp add: get_all_coins_cached)
    have "0 \<le> L' \<Longrightarrow> int (length (py_take L' cached)) = min L' (int (length cached))"
      by (simp add: py_take_length)
    moreover have "min L' (int (length cached)) \<le> L"
      using len by linarith
    ultimately show ?thesis
      unfolding hit by (simp add: py_take_prefix py_take_length)
  qed
  from coins cache bound later show ?thesis by blast
qed

text \<open>The same files with \<open>L = 3\<close> and \<open>L' = 2\<close>.\<close>

theorem aggregate_cache_limit_witness:
  "cache_file two_pages = None
   \<and> get_all_coins int_of_str_on_samples 3 two_pages = ([1, 2, 3], two_pages_cached)
   \<and> pages_concat int_of_str_on_samples two_pages = [1, 2, 3, 4, 5]
   \<and> cache_file two_pages_cached = Some (Dict (CoinsList [1, 2, 3]))
   \<and> fst (get_all_coins int_of_str_on_samples 2 two_pages_cached) = [1, 2]
   \<and> int (length (fst (get_all_coins int_of_str_on_samples 2 two_pages_cached))) \<le> min 3 2"
proof -
  have nocache: "cache_file two_pages = None" by (simp add: two_pages_def)
  have cached: "cache_file two_pages_cached = Some (Dict (CoinsList [1, 2, 3]))"
    by (simp add: two_pages_cached_def)
  have pos: "(0::int) \<le> 2" by simp
  have same: "cache_file two_pages_cached = cache_file two_pages_cached" ..
  from aggregate_cache_limit [OF nocache two_pages_rebuild,
      of "[1, 2, 3]" two_pages_cached int_of_str_on_samples 2] cached same pos
  have "fst (get_all_coins int_of_str_on_samples 2 two_pages_cached) = py_take 2 [1, 2, 3]
        \<and> int (length (fst (get_all_coins int_of_str_on_samples 2 two_pages_cached))) \<le> min 3 2"
    by blast
  with nocache cached two_pages_rebuild two_pages_concat show ?thesis
    by (simp add: py_take_def)
qed

end
